theory Spec2Isabelle
  imports Main
begin

section \<open>Shared data manager (utils/data\_manager.py)\<close>








section \<open>Values, the event log and the external services\<close>

text \<open>
  The Python values that travel between the agents: \<^verbatim>\<open>None\<close>, strings, lists and
  dictionaries. \<open>truthy\<close> is Python's truth value of such an object.
\<close>

datatype pyval = PNone | PStr string | PList "pyval list" | PDict "(string \<times> pyval) list"

fun truthy :: "pyval \<Rightarrow> bool" where
  "truthy PNone = False"
| "truthy (PStr s) = (s \<noteq> [])"
| "truthy (PList xs) = (xs \<noteq> [])"
| "truthy (PDict d) = (d \<noteq> [])"

text \<open>
  What a run does to the outside is kept in a log, oldest event first: a worker object was
  constructed, a worker's engine was called once, the process slept for so many seconds,
  a role's result was stored under a key, the compiler's language model was called.
\<close>

datatype event =
    Constructed string
  | Called string
  | Slept nat
  | Stored string
  | Merged

text \<open>
  The services the orchestration code calls but does not implement: the agent factories
  (\<^verbatim>\<open>get_roi_agent\<close> and the others, which load data and may raise),
  \<^verbatim>\<open>ROIAgent._create_agent\<close>, the call \<^verbatim>\<open>agent_executor.invoke\<close> of a worker (or the
  whole \<^verbatim>\<open>invoke\<close> of the workers whose body is not modelled: SQL, budget, market), the
  compiler's \<^verbatim>\<open>llm.invoke\<close>, and the schema text of the data manager. Each takes the
  state of the outside world \<open>'w\<close> and returns the next one, so a service may answer
  differently on every call. An exception is \<open>Some msg\<close> or \<open>Inl msg\<close>, with
  \<open>msg\<close> what \<^verbatim>\<open>str(e)\<close> gives.
\<close>

record compile_args =
  arg_section :: pyval
  arg_question :: pyval
  arg_exploration :: pyval
  arg_sql :: pyval
  arg_roi :: pyval
  arg_budget :: pyval
  arg_kpi :: pyval
  arg_market :: pyval

record 'w services =
  factory :: "string \<Rightarrow> 'w \<Rightarrow> string option \<times> 'w"
  create_agent :: "'w \<Rightarrow> string option \<times> 'w"
  executor_invoke :: "string \<Rightarrow> pyval \<Rightarrow> 'w \<Rightarrow> (string + pyval) \<times> 'w"
  llm_invoke :: "compile_args \<Rightarrow> 'w \<Rightarrow> (string + string) \<times> 'w"
  schema_info :: string

text \<open>
  A worker object: its role, its identity, and whether \<^verbatim>\<open>agent_executor\<close> is set
  (\<^verbatim>\<open>ROIAgent.__init__\<close> leaves it \<^verbatim>\<open>None\<close>). The state of a generator or supervisor:
  the outside world, the log, the workers it holds by name (\<^verbatim>\<open>self._agents\<close>) and the
  number of objects allocated so far.
\<close>

record agent =
  agent_role :: string
  agent_oid :: nat
  agent_executor :: bool

record 'w state =
  world :: 'w
  trace :: "event list"
  agents :: "string \<rightharpoonup> agent"
  allocated :: nat

definition emit :: "event \<Rightarrow> 'w state \<Rightarrow> 'w state" where
  "emit e s = s\<lparr>trace := trace s @ [e]\<rparr>"

definition sleep :: "nat \<Rightarrow> 'w state \<Rightarrow> 'w state" where
  "sleep n s = emit (Slept n) s"

text \<open>Python's \<^verbatim>\<open>str\<close> of a non-negative integer.\<close>

fun str_nat :: "nat \<Rightarrow> string" where
  "str_nat n =
     (if n < 10 then [''0123456789'' ! n]
      else str_nat (n div 10) @ [''0123456789'' ! (n mod 10)])"

declare str_nat.simps [simp del]

section \<open>Worker adapters (agents/roi.py, agents/kpi.py, agents/exploration.py)\<close>

text \<open>
  \<^verbatim>\<open>ROIAgent.invoke\<close> and \<^verbatim>\<open>KPIAgent.invoke\<close> hold the same loop with other constants:
  \<^verbatim>\<open>
  attempt = 0
  while attempt < max_attempts:
      try:
          result = self.agent_executor.invoke({"input": query})
          return result["output"]
      except Exception as e:
          attempt += 1
          if attempt < max_attempts:
              wait_time = base * attempt
              time.sleep(wait_time)
          else:
              return f"Error in LABEL analysis after {max_attempts} attempts: {str(e)}"
  \<close>
  \<open>executor_invoke\<close> stands for the two lines of the \<^verbatim>\<open>try\<close>. A loop that ends without
  \<^verbatim>\<open>return\<close> gives \<^verbatim>\<open>None\<close>.
\<close>

function retry_loop ::
  "'w services \<Rightarrow> string \<Rightarrow> string \<Rightarrow> nat \<Rightarrow> nat \<Rightarrow> pyval \<Rightarrow> nat \<Rightarrow> 'w state \<Rightarrow> pyval \<times> 'w state" where
  "retry_loop sv name label max_attempts base query attempt s =
     (if attempt < max_attempts then
        (case executor_invoke sv name query (world s) of
           (Inr out, w) \<Rightarrow> (out, emit (Called name) (s\<lparr>world := w\<rparr>))
         | (Inl e, w) \<Rightarrow>
             (if attempt + 1 < max_attempts
              then retry_loop sv name label max_attempts base query (attempt + 1)
                     (sleep (base * (attempt + 1)) (emit (Called name) (s\<lparr>world := w\<rparr>)))
              else (PStr (''Error in '' @ label @ '' analysis after '' @ str_nat max_attempts
                            @ '' attempts: '' @ e),
                    emit (Called name) (s\<lparr>world := w\<rparr>))))
      else (PNone, s))"
  by pat_completeness auto
termination
  by (relation "measure (\<lambda>(sv, name, label, max_attempts, base, query, attempt, s). max_attempts - attempt)")
     auto

declare retry_loop.simps [simp del]

text \<open>\<^verbatim>\<open>ROIAgent.invoke\<close>: the executor is created on first use, outside any \<^verbatim>\<open>try\<close>.\<close>

definition ROIAgent_invoke ::
  "'w services \<Rightarrow> agent \<Rightarrow> pyval \<Rightarrow> 'w state \<Rightarrow> (string + pyval) \<times> 'w state" where
  "ROIAgent_invoke sv self query s =
     (if \<not> agent_executor self then
        (case create_agent sv (world s) of
           (Some msg, w) \<Rightarrow> (Inl msg, s\<lparr>world := w\<rparr>)
         | (None, w) \<Rightarrow>
             (case retry_loop sv (agent_role self) ''ROI'' 2 5 query 0
                     (s\<lparr>world := w,
                        agents := (agents s)(agent_role self \<mapsto> self\<lparr>agent_executor := True\<rparr>)\<rparr>) of
                (out, s') \<Rightarrow> (Inr out, s')))
      else (case retry_loop sv (agent_role self) ''ROI'' 2 5 query 0 s of
              (out, s') \<Rightarrow> (Inr out, s')))"

definition KPIAgent_invoke ::
  "'w services \<Rightarrow> agent \<Rightarrow> pyval \<Rightarrow> 'w state \<Rightarrow> (string + pyval) \<times> 'w state" where
  "KPIAgent_invoke sv self query s =
     (case retry_loop sv (agent_role self) ''KPI'' 3 20 query 0 s of
        (out, s') \<Rightarrow> (Inr out, s'))"

text \<open>\<^verbatim>\<open>DataExplorationAgent.analyze\<close>: one call, every exception turned into a text.\<close>

definition DataExplorationAgent_analyze ::
  "'w services \<Rightarrow> agent \<Rightarrow> pyval \<Rightarrow> 'w state \<Rightarrow> (string + pyval) \<times> 'w state" where
  "DataExplorationAgent_analyze sv self query s =
     (case executor_invoke sv (agent_role self) query (world s) of
        (Inr out, w) \<Rightarrow> (Inr out, emit (Called (agent_role self)) (s\<lparr>world := w\<rparr>))
      | (Inl e, w) \<Rightarrow> (Inr (PStr (''Error in data exploration: '' @ e)),
                       emit (Called (agent_role self)) (s\<lparr>world := w\<rparr>)))"

text \<open>The workers whose \<^verbatim>\<open>invoke\<close> is taken whole from the services: it returns or raises.\<close>

definition opaque_invoke ::
  "'w services \<Rightarrow> agent \<Rightarrow> pyval \<Rightarrow> 'w state \<Rightarrow> (string + pyval) \<times> 'w state" where
  "opaque_invoke sv self query s =
     (case executor_invoke sv (agent_role self) query (world s) of
        (r, w) \<Rightarrow> (r, emit (Called (agent_role self)) (s\<lparr>world := w\<rparr>)))"

section \<open>Sequential generator (agents/generator.py)\<close>

text \<open>A Python dictionary that is iterated keeps its keys in insertion order.\<close>

fun dict_set :: "string \<Rightarrow> 'v \<Rightarrow> (string \<times> 'v) list \<Rightarrow> (string \<times> 'v) list" where
  "dict_set k v [] = [(k, v)]"
| "dict_set k v ((k', v') # d) = (if k = k' then (k, v) # d else (k', v') # dict_set k v d)"

definition section_agent_mapping :: "(string \<times> string list) list" where
  "section_agent_mapping =
     [(''executive_summary'', [''exploration_agent'']),
      (''business_context'', [''exploration_agent'', ''market_agent'', ''sql_agent'']),
      (''marketing_performance'', [''exploration_agent'', ''sql_agent'']),
      (''performance_drivers'', [''kpi_agent'', ''sql_agent'']),
      (''marketing_roi'', [''roi_agent'', ''sql_agent'']),
      (''budget_allocation'', [''budget_agent'', ''sql_agent'']),
      (''implementation'', [''market_agent''])]"

text \<open>\<^verbatim>\<open>self.section_agent_mapping.get(section, [])\<close>\<close>

definition mapping_get :: "string \<Rightarrow> string list" where
  "mapping_get section =
     (case map_of section_agent_mapping section of None \<Rightarrow> [] | Some roles \<Rightarrow> roles)"

text \<open>
  Constructing a worker: the factory runs (and may raise); when it returns, a new object
  exists. \<^verbatim>\<open>CompilerAgent(self.llm)\<close> only stores the model it is given.
\<close>

definition new_agent :: "string \<Rightarrow> bool \<Rightarrow> 'w state \<Rightarrow> agent \<times> 'w state" where
  "new_agent name ex s =
     (\<lparr>agent_role = name, agent_oid = allocated s, agent_executor = ex\<rparr>,
      emit (Constructed name) (s\<lparr>allocated := Suc (allocated s)\<rparr>))"

definition call_factory ::
  "'w services \<Rightarrow> string \<Rightarrow> bool \<Rightarrow> 'w state \<Rightarrow> (string + agent) \<times> 'w state" where
  "call_factory sv name ex s =
     (case factory sv name (world s) of
        (Some msg, w) \<Rightarrow> (Inl msg, s\<lparr>world := w\<rparr>)
      | (None, w) \<Rightarrow> (case new_agent name ex (s\<lparr>world := w\<rparr>) of (a, s') \<Rightarrow> (Inr a, s')))"

definition store_agent ::
  "string \<Rightarrow> (string + agent) \<times> 'w state \<Rightarrow> (string + agent) \<times> 'w state" where
  "store_agent name r =
     (case r of
        (Inl msg, s) \<Rightarrow> (Inl msg, s)
      | (Inr a, s) \<Rightarrow> (Inr a, s\<lparr>agents := (agents s)(name \<mapsto> a)\<rparr>))"

text \<open>\<^verbatim>\<open>SequentialGenerator._get_agent\<close>\<close>

definition get_agent :: "'w services \<Rightarrow> string \<Rightarrow> 'w state \<Rightarrow> (string + agent) \<times> 'w state" where
  "get_agent sv agent_name s =
     (case agents s agent_name of
        Some a \<Rightarrow> (Inr a, s)
      | None \<Rightarrow>
          (if agent_name = ''exploration_agent'' then store_agent agent_name (call_factory sv agent_name True s)
           else if agent_name = ''sql_agent'' then store_agent agent_name (call_factory sv agent_name True s)
           else if agent_name = ''roi_agent'' then store_agent agent_name (call_factory sv agent_name False s)
           else if agent_name = ''budget_agent'' then store_agent agent_name (call_factory sv agent_name True s)
           else if agent_name = ''kpi_agent'' then store_agent agent_name (call_factory sv agent_name True s)
           else if agent_name = ''market_agent'' then store_agent agent_name (call_factory sv agent_name True s)
           else if agent_name = ''compiler_agent'' then
             store_agent agent_name (case new_agent agent_name True s of (a, s') \<Rightarrow> (Inr a, s'))
           else (Inl (''Unknown agent: '' @ agent_name), s)))"

text \<open>
  The body of the inner \<^verbatim>\<open>try\<close> of \<^verbatim>\<open>analyze_section\<close> up to the result: the worker is
  fetched and called the way its name asks for. \<^verbatim>\<open>agent.invoke\<close> of the last branch is the
  method of the object's class. \<^verbatim>\<open>compile\<close> on a string (no section maps to it) finds
  no attribute \<^verbatim>\<open>current_section\<close> and returns its own error text.
\<close>

definition sql_suffix :: string where
  "sql_suffix = ''Answer the question based on the data in the database. Do not perform over analysis. Perform only the analysis that is required. Please find the database schema: ''"

definition compile_str_error :: string where
  "compile_str_error = ''Error compiling report section: '' @ [CHR 0x27] @ ''str'' @ [CHR 0x27]
      @ '' object has no attribute '' @ [CHR 0x27] @ ''current_section'' @ [CHR 0x27]"

definition run_agent ::
  "'w services \<Rightarrow> string \<Rightarrow> string \<Rightarrow> 'w state \<Rightarrow> (string + pyval) \<times> 'w state" where
  "run_agent sv question agent_name s =
     (case get_agent sv agent_name s of
        (Inl msg, s1) \<Rightarrow> (Inl msg, s1)
      | (Inr agent, s1) \<Rightarrow>
          (if agent_name = ''exploration_agent'' then DataExplorationAgent_analyze sv agent (PStr question) s1
           else if agent_name = ''market_agent'' then opaque_invoke sv agent (PStr question) s1
           else if agent_name = ''compiler_agent'' then (Inr (PStr compile_str_error), s1)
           else if agent_name = ''sql_agent'' then
             opaque_invoke sv agent (PStr (question @ sql_suffix @ schema_info sv)) s1
           else if agent_role agent = ''roi_agent'' then ROIAgent_invoke sv agent (PStr question) s1
           else if agent_role agent = ''kpi_agent'' then KPIAgent_invoke sv agent (PStr question) s1
           else opaque_invoke sv agent (PStr question) s1))"

text \<open>
  The loop over \<^verbatim>\<open>agents_needed\<close>: a result is stored and the process sleeps a second;
  an exception is stored as \<^verbatim>\<open>{"error": str(e)}\<close>; either way the loop goes on.
\<close>

fun run_agents ::
  "'w services \<Rightarrow> string \<Rightarrow> string list \<Rightarrow> (string \<times> pyval) list \<Rightarrow> 'w state
     \<Rightarrow> (string \<times> pyval) list \<times> 'w state" where
  "run_agents sv question [] results s = (results, s)"
| "run_agents sv question (agent_name # rest) results s =
     (case run_agent sv question agent_name s of
        (Inr result, s1) \<Rightarrow>
          run_agents sv question rest (dict_set agent_name result results)
            (sleep 1 (emit (Stored agent_name) s1))
      | (Inl e, s1) \<Rightarrow>
          run_agents sv question rest (dict_set agent_name (PDict [(''error'', PStr e)]) results)
            (emit (Stored agent_name) s1))"

text \<open>The second loop: each stored result goes under the key the compiler reads.\<close>

definition state_key :: "string \<Rightarrow> string option" where
  "state_key agent_name =
     (if agent_name = ''exploration_agent'' then Some ''exploration_results''
      else if agent_name = ''sql_agent'' then Some ''sql_results''
      else if agent_name = ''roi_agent'' then Some ''roi_results''
      else if agent_name = ''budget_agent'' then Some ''budget_results''
      else if agent_name = ''kpi_agent'' then Some ''kpi_results''
      else if agent_name = ''market_agent'' then Some ''market_results''
      else None)"

fun add_results :: "(string \<times> pyval) list \<Rightarrow> (string \<rightharpoonup> pyval) \<Rightarrow> (string \<rightharpoonup> pyval)" where
  "add_results [] st = st"
| "add_results ((agent_name, result) # rest) st =
     add_results rest (case state_key agent_name of Some k \<Rightarrow> st(k \<mapsto> result) | None \<Rightarrow> st)"

definition compilation_state :: "string \<Rightarrow> string \<Rightarrow> (string \<times> pyval) list \<Rightarrow> (string \<rightharpoonup> pyval)" where
  "compilation_state section question results =
     add_results results
       [''current_section'' \<mapsto> PStr section, ''current_question'' \<mapsto> PStr question]"

section \<open>Compiler (agents/compiler.py)\<close>

text \<open>
  \<^verbatim>\<open>CompilerAgent.compile\<close> on a dictionary: the fields are read with their defaults, an
  empty result is replaced by a fixed text, the prompt is filled and sent to the model.
  All of it sits in one \<^verbatim>\<open>try\<close>; \<open>llm_invoke\<close> stands for the formatting, the call and
  the read of \<^verbatim>\<open>response.content\<close>. The handler returns the error as the text.
\<close>

definition dict_get :: "(string \<rightharpoonup> pyval) \<Rightarrow> string \<Rightarrow> pyval \<Rightarrow> pyval" where
  "dict_get d k dflt = (case d k of None \<Rightarrow> dflt | Some v \<Rightarrow> v)"

definition processed :: "pyval \<Rightarrow> pyval" where
  "processed r = (if truthy r then r else PStr ''No results available'')"

definition prompt_args :: "(string \<rightharpoonup> pyval) \<Rightarrow> compile_args" where
  "prompt_args st =
     \<lparr>arg_section = dict_get st ''current_section'' (PStr []),
      arg_question = dict_get st ''current_question'' (PStr []),
      arg_exploration = processed (dict_get st ''exploration_results'' (PDict [])),
      arg_sql = processed (dict_get st ''sql_results'' (PDict [])),
      arg_roi = processed (dict_get st ''roi_results'' (PDict [])),
      arg_budget = processed (dict_get st ''budget_results'' (PDict [])),
      arg_kpi = processed (dict_get st ''kpi_results'' (PDict [])),
      arg_market = processed (dict_get st ''market_results'' (PDict []))\<rparr>"

definition CompilerAgent_compile ::
  "'w services \<Rightarrow> (string \<rightharpoonup> pyval) \<Rightarrow> 'w state \<Rightarrow> string \<times> 'w state" where
  "CompilerAgent_compile sv st s =
     (case llm_invoke sv (prompt_args st) (world s) of
        (Inr content, w) \<Rightarrow> (content, emit Merged (s\<lparr>world := w\<rparr>))
      | (Inl e, w) \<Rightarrow> (''Error compiling report section: '' @ e, emit Merged (s\<lparr>world := w\<rparr>)))"

section \<open>One section and the whole report (agents/generator.py)\<close>

text \<open>
  The dictionary \<^verbatim>\<open>analyze_section\<close> returns has either the key \<^verbatim>\<open>result\<close> (with the
  section and \<^verbatim>\<open>agents_used\<close> in its metadata) or the key \<^verbatim>\<open>error\<close> (with the section
  and, from the outer handler, \<^verbatim>\<open>attempted_agents\<close>). The measured execution time is
  left out.
\<close>

datatype analysis =
    Result string string "string list"
  | Error string string "string list option"

definition analyze_section ::
  "'w services \<Rightarrow> string \<Rightarrow> string \<Rightarrow> 'w state \<Rightarrow> analysis \<times> 'w state" where
  "analyze_section sv question section s =
     (let agents_needed = mapping_get section in
      if agents_needed = [] then
        (Error (''No agents defined for section: '' @ section) section None, s)
      else
        (case run_agents sv question agents_needed [] s of
           (results, s1) \<Rightarrow>
             (case get_agent sv ''compiler_agent'' s1 of
                (Inl e, s2) \<Rightarrow>
                  (Error (''Error in analysis: '' @ e) section (Some (mapping_get section)), s2)
              | (Inr compiler, s2) \<Rightarrow>
                  (case CompilerAgent_compile sv (compilation_state section question results) s2 of
                     (final_answer, s3) \<Rightarrow> (Result final_answer section agents_needed, s3)))))"

text \<open>\<^verbatim>\<open>result.get("result", "")\<close> and \<^verbatim>\<open>"error" in result\<close>\<close>

fun get_result :: "analysis \<Rightarrow> string" where
  "get_result (Result r _ _) = r"
| "get_result (Error _ _ _) = []"

fun get_error :: "analysis \<Rightarrow> string option" where
  "get_error (Result _ _ _) = None"
| "get_error (Error e _ _) = Some e"




record report =
  report_data :: "(string \<times> string) list"
  total_sections :: nat
  successful_sections :: int
  errors :: "string list"


section \<open>Parallel supervisor (agents/report\_generator.py)\<close>

text \<open>
  The graph state is the typed dictionary \<^verbatim>\<open>AgentState\<close>: every key is declared, and
  \<^verbatim>\<open>analyze\<close> creates it with all of them. \<open>as_dict\<close> is the same object seen as the
  dictionary the compiler receives.
\<close>

record AgentState =
  messages :: "pyval list"
  current_section :: string
  current_question :: string
  exploration_results :: pyval
  sql_results :: pyval
  roi_results :: pyval
  budget_results :: pyval
  kpi_results :: pyval
  market_results :: pyval
  final_answer :: string

definition as_dict :: "AgentState \<Rightarrow> (string \<rightharpoonup> pyval)" where
  "as_dict st =
     [''messages'' \<mapsto> PList (messages st),
      ''current_section'' \<mapsto> PStr (current_section st),
      ''current_question'' \<mapsto> PStr (current_question st),
      ''exploration_results'' \<mapsto> exploration_results st,
      ''sql_results'' \<mapsto> sql_results st,
      ''roi_results'' \<mapsto> roi_results st,
      ''budget_results'' \<mapsto> budget_results st,
      ''kpi_results'' \<mapsto> kpi_results st,
      ''market_results'' \<mapsto> market_results st,
      ''final_answer'' \<mapsto> PStr (final_answer st)]"

text \<open>
  \<^verbatim>\<open>SupervisorAgent.__init__\<close> builds every worker, in this order, before any question is
  asked; an exception of a factory leaves the constructor. The workers are kept under
  their names, as the attributes of the supervisor are.
\<close>

fun build_all :: "'w services \<Rightarrow> (string \<times> bool) list \<Rightarrow> 'w state \<Rightarrow> string option \<times> 'w state" where
  "build_all sv [] s = (None, s)"
| "build_all sv ((name, ex) # rest) s =
     (case store_agent name (call_factory sv name ex s) of
        (Inl msg, s1) \<Rightarrow> (Some msg, s1)
      | (Inr a, s1) \<Rightarrow> build_all sv rest s1)"

definition SupervisorAgent_init :: "'w services \<Rightarrow> 'w state \<Rightarrow> string option \<times> 'w state" where
  "SupervisorAgent_init sv s =
     (case build_all sv
             [(''exploration_agent'', True), (''sql_agent'', True), (''roi_agent'', False),
              (''budget_agent'', True), (''kpi_agent'', True), (''market_agent'', True)] s of
        (Some msg, s1) \<Rightarrow> (Some msg, s1)
      | (None, s1) \<Rightarrow>
          (case new_agent ''compiler_agent'' True s1 of
             (a, s2) \<Rightarrow> (None, s2\<lparr>agents := (agents s2)(''compiler_agent'' \<mapsto> a)\<rparr>)))"

text \<open>
  Reading an attribute of the supervisor and calling a method on it, inside a node's
  \<^verbatim>\<open>try\<close>. A supervisor whose constructor has returned has every attribute.
\<close>

definition no_attribute :: "string \<Rightarrow> string" where
  "no_attribute name = [CHR 0x27] @ ''SupervisorAgent'' @ [CHR 0x27] @ '' object has no attribute ''
      @ [CHR 0x27] @ name @ [CHR 0x27]"

definition with_agent ::
  "string \<Rightarrow> (agent \<Rightarrow> 'w state \<Rightarrow> (string + pyval) \<times> 'w state) \<Rightarrow> 'w state
     \<Rightarrow> (string + pyval) \<times> 'w state" where
  "with_agent name call s =
     (case agents s name of None \<Rightarrow> (Inl (no_attribute name), s) | Some a \<Rightarrow> call a s)"

text \<open>
  The six worker nodes have one shape:
  \<^verbatim>\<open>
  section = state.get("current_section", "")
  if NAME in self.section_agent_mapping.get(section, []):
      try:
          result = <call>
          state[KEY] = result
      except Exception as e:
          state[KEY] = f"Error in LABEL: {str(e)}"
  return state
  \<close>
  \<open>put\<close> writes the node's own key.
\<close>

definition worker_node ::
  "string \<Rightarrow> string \<Rightarrow> string \<Rightarrow> (pyval \<Rightarrow> AgentState \<Rightarrow> AgentState)
     \<Rightarrow> ('w state \<Rightarrow> (string + pyval) \<times> 'w state)
     \<Rightarrow> AgentState \<Rightarrow> 'w state \<Rightarrow> AgentState \<times> 'w state" where
  "worker_node name key label put call st s =
     (if name \<in> set (mapping_get (current_section st)) then
        (case call s of
           (Inr result, s1) \<Rightarrow> (put result st, emit (Stored key) s1)
         | (Inl e, s1) \<Rightarrow> (put (PStr (''Error in '' @ label @ '': '' @ e)) st, emit (Stored key) s1))
      else (st, s))"

definition run_exploration :: "'w services \<Rightarrow> AgentState \<Rightarrow> 'w state \<Rightarrow> AgentState \<times> 'w state" where
  "run_exploration sv st s =
     worker_node ''exploration_agent'' ''exploration_results'' ''exploration''
       (\<lambda>r st. st\<lparr>exploration_results := r\<rparr>)
       (with_agent ''exploration_agent''
          (\<lambda>a. DataExplorationAgent_analyze sv a (PStr (current_question st)))) st s"

definition sql_suffix_parallel :: string where
  "sql_suffix_parallel = '' Answer the question based on the data in the database. Do not perform over analysis. Perform only the analysis that is required. Please find the database schema: ''"

definition run_sql :: "'w services \<Rightarrow> AgentState \<Rightarrow> 'w state \<Rightarrow> AgentState \<times> 'w state" where
  "run_sql sv st s =
     worker_node ''sql_agent'' ''sql_results'' ''SQL analysis''
       (\<lambda>r st. st\<lparr>sql_results := r\<rparr>)
       (with_agent ''sql_agent''
          (\<lambda>a. opaque_invoke sv a
                  (PStr (current_question st @ sql_suffix_parallel @ schema_info sv)))) st s"

definition run_roi :: "'w services \<Rightarrow> AgentState \<Rightarrow> 'w state \<Rightarrow> AgentState \<times> 'w state" where
  "run_roi sv st s =
     worker_node ''roi_agent'' ''roi_results'' ''ROI analysis''
       (\<lambda>r st. st\<lparr>roi_results := r\<rparr>)
       (with_agent ''roi_agent'' (\<lambda>a. ROIAgent_invoke sv a (PStr (current_question st)))) st s"

definition run_budget :: "'w services \<Rightarrow> AgentState \<Rightarrow> 'w state \<Rightarrow> AgentState \<times> 'w state" where
  "run_budget sv st s =
     worker_node ''budget_agent'' ''budget_results'' ''budget analysis''
       (\<lambda>r st. st\<lparr>budget_results := r\<rparr>)
       (with_agent ''budget_agent'' (\<lambda>a. opaque_invoke sv a (PStr (current_question st)))) st s"

definition run_kpi :: "'w services \<Rightarrow> AgentState \<Rightarrow> 'w state \<Rightarrow> AgentState \<times> 'w state" where
  "run_kpi sv st s =
     worker_node ''kpi_agent'' ''kpi_results'' ''KPI analysis''
       (\<lambda>r st. st\<lparr>kpi_results := r\<rparr>)
       (with_agent ''kpi_agent'' (\<lambda>a. KPIAgent_invoke sv a (PStr (current_question st)))) st s"

text \<open>The market node keeps only the \<^verbatim>\<open>analysis\<close> entry of a dictionary that has one.\<close>

definition analysis_of :: "pyval \<Rightarrow> pyval" where
  "analysis_of result =
     (case result of
        PDict d \<Rightarrow> (case map_of d ''analysis'' of Some v \<Rightarrow> v | None \<Rightarrow> result)
      | _ \<Rightarrow> result)"

definition run_market :: "'w services \<Rightarrow> AgentState \<Rightarrow> 'w state \<Rightarrow> AgentState \<times> 'w state" where
  "run_market sv st s =
     worker_node ''market_agent'' ''market_results'' ''market analysis''
       (\<lambda>r st. st\<lparr>market_results := analysis_of r\<rparr>)
       (with_agent ''market_agent'' (\<lambda>a. opaque_invoke sv a (PStr (current_question st)))) st s"

text \<open>The compiler node: \<^verbatim>\<open>CompilerAgent.invoke\<close> is \<^verbatim>\<open>compile\<close> on the state.\<close>

definition compile_results :: "'w services \<Rightarrow> AgentState \<Rightarrow> 'w state \<Rightarrow> AgentState \<times> 'w state" where
  "compile_results sv st s =
     (case agents s ''compiler_agent'' of
        None \<Rightarrow> (st\<lparr>final_answer := ''Error compiling results: '' @ no_attribute ''compiler_agent''\<rparr>, s)
      | Some compiler \<Rightarrow>
          (case CompilerAgent_compile sv (as_dict st) s of
             (result, s1) \<Rightarrow> (st\<lparr>final_answer := result\<rparr>, s1)))"

text \<open>
  The graph: \<^verbatim>\<open>supervisor\<close> (which returns the state as it is), an edge from it to each of
  the six worker nodes, an edge from each of them to \<^verbatim>\<open>compiler\<close>. \<open>run_node\<close> is the
  table that \<^verbatim>\<open>add_node\<close> fills: the function registered under a node's name. Every
  node function ends with \<^verbatim>\<open>return state\<close>: what it hands back is the whole state.

  The engine that runs the compiled graph (\<^verbatim>\<open>workflow.invoke\<close>) is a library and
  is not part of this development: how it schedules the six nodes, what it makes of the
  states they return, and so what \<^verbatim>\<open>analyze\<close> returns in the end, is not modelled.
  What is said of the parallel scheduler below is said of the constructor, of the state
  \<^verbatim>\<open>analyze\<close> creates (\<open>initial_state\<close>) and of each node function.
\<close>

definition worker_nodes :: "string list" where
  "worker_nodes = [''exploration'', ''sql'', ''roi'', ''budget'', ''kpi'', ''market'']"

definition run_node :: "'w services \<Rightarrow> string \<Rightarrow> AgentState \<Rightarrow> 'w state \<Rightarrow> AgentState \<times> 'w state" where
  "run_node sv node st s =
     (if node = ''exploration'' then run_exploration sv st s
      else if node = ''sql'' then run_sql sv st s
      else if node = ''roi'' then run_roi sv st s
      else if node = ''budget'' then run_budget sv st s
      else if node = ''kpi'' then run_kpi sv st s
      else if node = ''market'' then run_market sv st s
      else (st, s))"

definition initial_state :: "string \<Rightarrow> string \<Rightarrow> AgentState" where
  "initial_state question section =
     \<lparr>messages = [], current_section = section, current_question = question,
      exploration_results = PDict [], sql_results = PDict [], roi_results = PDict [],
      budget_results = PDict [], kpi_results = PDict [], market_results = PDict [],
      final_answer = []\<rparr>"

section \<open>Reading the log, and services for concrete runs\<close>

fun total_wait :: "event list \<Rightarrow> nat" where
  "total_wait [] = 0"
| "total_wait (Slept n # es) = n + total_wait es"
| "total_wait (_ # es) = total_wait es"

definition calls_of :: "string \<Rightarrow> event list \<Rightarrow> nat" where
  "calls_of name tr = length (filter (\<lambda>e. e = Called name) tr)"

definition constructions_of :: "string \<Rightarrow> event list \<Rightarrow> nat" where
  "constructions_of name tr = length (filter (\<lambda>e. e = Constructed name) tr)"

definition writes_of :: "string \<Rightarrow> event list \<Rightarrow> nat" where
  "writes_of key tr = length (filter (\<lambda>e. e = Stored key) tr)"

text \<open>
  \<open>fails_with sv name q es w\<close>: from the world \<open>w\<close> on, the engine of worker \<open>name\<close>
  raises on the next calls with the messages \<open>es\<close>, in turn; the result is the world
  after them.
\<close>

fun fails_with :: "'w services \<Rightarrow> string \<Rightarrow> pyval \<Rightarrow> string list \<Rightarrow> 'w \<Rightarrow> 'w option" where
  "fails_with sv name q [] w = Some w"
| "fails_with sv name q (e # es) w =
     (case executor_invoke sv name q w of
        (Inl e', w') \<Rightarrow> (if e' = e then fails_with sv name q es w' else None)
      | (Inr out, w') \<Rightarrow> None)"

text \<open>The log of the retry loop between two attempts: a call, then the wait.\<close>

definition attempts_log :: "string \<Rightarrow> nat \<Rightarrow> nat list \<Rightarrow> event list" where
  "attempts_log name base ns = concat (map (\<lambda>i. [Called name, Slept (base * i)]) ns)"

text \<open>A generator that has not built any worker yet.\<close>

definition start :: "'w \<Rightarrow> 'w state" where
  "start w = \<lparr>world = w, trace = [], agents = Map.empty, allocated = 0\<rparr>"

text \<open>
  Services for concrete runs. The world is the number of engine calls made so far.
  \<open>flaky k bad\<close>: every factory works; the engine of a worker in \<open>bad\<close> raises
  \<^verbatim>\<open>rate limit\<close> while fewer than \<open>k\<close> calls have been made, every other call answers
  \<^verbatim>\<open>ok\<close>; the compiler's model answers \<^verbatim>\<open>section text\<close>. In \<open>llm_down\<close> every
  worker answers and the compiler's model raises \<^verbatim>\<open>boom\<close>. In \<open>llm_silent\<close> the market
  worker raises on its first call and the compiler's model answers with the empty text.
\<close>

definition flaky :: "nat \<Rightarrow> string list \<Rightarrow> nat services" where
  "flaky k bad =
     \<lparr>factory = (\<lambda>name w. (None, w)),
      create_agent = (\<lambda>w. (None, w)),
      executor_invoke = (\<lambda>name q w.
         (if name \<in> set bad \<and> w < k then Inl ''rate limit'' else Inr (PStr ''ok''), Suc w)),
      llm_invoke = (\<lambda>args w. (Inr ''section text'', w)),
      schema_info = ''Available Data Tables:''\<rparr>"

definition llm_down :: "nat services" where
  "llm_down = (flaky 0 [])\<lparr>llm_invoke := (\<lambda>args w. (Inl ''boom'', w))\<rparr>"

definition llm_silent :: "nat services" where
  "llm_silent = (flaky 1 [''market_agent''])\<lparr>llm_invoke := (\<lambda>args w. (Inr [], w))\<rparr>"

text \<open>
  Further vocabulary of the statements below. \<open>roles_ok\<close>: every worker is held under
  the name of its own role. \<open>gets\<close>: a sequence of \<^verbatim>\<open>_get_agent\<close> requests, the way
  \<^verbatim>\<open>analyze_section\<close> issues them (an exception of one request does not stop the next).
  \<open>node_table\<close>: each worker node of the graph with the role it checks and the key it
  writes. \<open>sections_loop\<close>: the batch loop as the specification describes it - analyse,
  keep the text (empty when there is none), note the error, pause unless this was the
  last section - with no exception handler at all.
\<close>

definition roles_ok :: "'w state \<Rightarrow> bool" where
  "roles_ok s = (\<forall>name a. agents s name = Some a \<longrightarrow> agent_role a = name)"


definition node_table :: "(string \<times> string \<times> string) list" where
  "node_table =
     [(''exploration'', ''exploration_agent'', ''exploration_results''),
      (''sql'', ''sql_agent'', ''sql_results''),
      (''roi'', ''roi_agent'', ''roi_results''),
      (''budget'', ''budget_agent'', ''budget_results''),
      (''kpi'', ''kpi_agent'', ''kpi_results''),
      (''market'', ''market_agent'', ''market_results'')]"



text \<open>
  \<open>call_events name\<close>: what calling the worker \<open>name\<close> may add to the log - calls of its
  engine and waits. \<open>steps A s s1\<close>: the log of \<open>s1\<close> is the log of \<open>s\<close> followed by events
  of \<open>A\<close> only, and the workers of \<open>s1\<close> are still held under their roles.
\<close>

definition call_events :: "string \<Rightarrow> event set" where
  "call_events name = insert (Called name) (range Slept)"

definition steps :: "event set \<Rightarrow> 'w state \<Rightarrow> 'w state \<Rightarrow> bool" where
  "steps A s s1 = (roles_ok s1 \<and> (\<exists>tr. trace s1 = trace s @ tr \<and> set tr \<subseteq> A))"

text \<open>A supervisor built with services that all work, before any run.\<close>

definition supervisor :: "nat state" where
  "supervisor = snd (SupervisorAgent_init (flaky 0 []) (start 0))"

section \<open>Properties of the data manager\<close>






section \<open>The retry loop\<close>

lemma emit_fields [simp]:
  "world (emit e s) = world s" "trace (emit e s) = trace s @ [e]"
  "agents (emit e s) = agents s" "allocated (emit e s) = allocated s"
  by (simp_all add: emit_def)

lemma sleep_fields [simp]:
  "world (sleep n s) = world s" "trace (sleep n s) = trace s @ [Slept n]"
  "agents (sleep n s) = agents s" "allocated (sleep n s) = allocated s"
  by (simp_all add: sleep_def)

lemma attempts_log_Cons:
  "attempts_log name base (n # ns) = Called name # Slept (base * n) # attempts_log name base ns"
  by (simp add: attempts_log_def)

lemma attempts_log_Nil: "attempts_log name base [] = []"
  by (simp add: attempts_log_def)

lemma total_wait_append: "total_wait (xs @ ys) = total_wait xs + total_wait ys"
  by (induction xs rule: total_wait.induct) simp_all

lemma total_wait_attempts_log: "total_wait (attempts_log name base ns) = base * sum_list ns"
  by (induction ns) (simp_all add: attempts_log_Nil attempts_log_Cons algebra_simps)

lemma calls_of_append: "calls_of name (xs @ ys) = calls_of name xs + calls_of name ys"
  by (simp add: calls_of_def)

lemma calls_of_attempts_log: "calls_of name (attempts_log name base ns) = length ns"
  by (induction ns) (simp_all add: attempts_log_Nil attempts_log_Cons calls_of_def)

lemma attempts_log_nth:
  "j < b - a \<Longrightarrow>
     attempts_log name base [a..<b] ! (2 * j) = Called name
   \<and> attempts_log name base [a..<b] ! (2 * j + 1) = Slept (base * (a + j))"
proof (induction j arbitrary: a)
  case 0
  then have "a < b" by simp
  then show ?case by (simp add: upt_conv_Cons attempts_log_Cons)
next
  case (Suc j)
  then have ab: "a < b" and j: "j < b - Suc a" by simp_all
  from Suc.IH [OF j] ab show ?case
    by (simp add: upt_conv_Cons attempts_log_Cons)
qed

lemma length_attempts_log: "length (attempts_log name base ns) = 2 * length ns"
  by (induction ns) (simp_all add: attempts_log_Nil attempts_log_Cons)

lemma retry_loop_recovers:
  "fails_with sv name q es (world s) = Some w1 \<Longrightarrow>
   executor_invoke sv name q w1 = (Inr out, w2) \<Longrightarrow>
   attempt + length es < max_attempts \<Longrightarrow>
   retry_loop sv name label max_attempts base q attempt s =
     (out, s\<lparr>world := w2,
             trace := trace s @ attempts_log name base [Suc attempt..<Suc (attempt + length es)]
                        @ [Called name]\<rparr>)"
proof (induction es arbitrary: attempt s)
  case Nil
  then show ?case
    by (simp add: retry_loop.simps [of _ _ _ _ _ _ attempt] emit_def attempts_log_Nil)
next
  case (Cons e es)
  from Cons.prems(1) obtain w' where
    ex: "executor_invoke sv name q (world s) = (Inl e, w')" and
    rest: "fails_with sv name q es w' = Some w1"
    by (auto split: prod.splits sum.splits if_splits)
  let ?s' = "sleep (base * (attempt + 1)) (emit (Called name) (s\<lparr>world := w'\<rparr>))"
  have w: "world ?s' = w'" by simp
  have lt: "Suc attempt + length es < max_attempts" using Cons.prems(3) by simp
  have ih: "retry_loop sv name label max_attempts base q (Suc attempt) ?s' =
     (out, ?s'\<lparr>world := w2,
             trace := trace ?s' @ attempts_log name base [Suc (Suc attempt)..<Suc (Suc attempt + length es)]
                        @ [Called name]\<rparr>)"
    using Cons.IH [of ?s' "Suc attempt"] rest Cons.prems(2) lt w by simp
  have step: "retry_loop sv name label max_attempts base q attempt s =
      retry_loop sv name label max_attempts base q (Suc attempt) ?s'"
    using ex lt by (subst retry_loop.simps) simp
  have "Suc attempt < Suc (Suc attempt + length es)" by simp
  from upt_conv_Cons [OF this]
  have upt: "[Suc attempt..<Suc (attempt + length (e # es))] =
      Suc attempt # [Suc (Suc attempt)..<Suc (Suc attempt + length es)]"
    by (simp del: upt_Suc)
  show ?case
    unfolding step ih upt attempts_log_Cons
    by (simp add: sleep_def emit_def)
qed


text \<open>
  C5, as the code has it. A worker whose engine raises exactly \<open>k = length es\<close> times,
  \<open>k < max_attempts\<close>, and then answers \<open>out\<close>: the loop returns \<open>out\<close>; it calls the
  engine \<open>k + 1\<close> times, once more after each failure and never after the answer; after
  the \<open>i\<close>-th failed call it sleeps \<open>base * i\<close>, so the wait before attempt \<open>N \<ge> 2\<close> is
  \<open>base * (N - 1)\<close>; the waits add up to \<open>base * (1 + 2 + ... + k)\<close>.
\<close>

theorem retry_recovers_with_linear_backoff:
  assumes "fails_with sv name q es (world s) = Some w1"
      and "executor_invoke sv name q w1 = (Inr out, w2)"
      and "length es < max_attempts"
  shows "fst (retry_loop sv name label max_attempts base q 0 s) = out
       \<and> trace (snd (retry_loop sv name label max_attempts base q 0 s))
           = trace s @ attempts_log name base [1..<Suc (length es)] @ [Called name]
       \<and> (\<forall>N. 2 \<le> N \<and> N \<le> Suc (length es) \<longrightarrow>
             trace (snd (retry_loop sv name label max_attempts base q 0 s))
               ! (length (trace s) + 2 * (N - 2) + 1) = Slept (base * (N - 1))
           \<and> trace (snd (retry_loop sv name label max_attempts base q 0 s))
               ! (length (trace s) + 2 * (N - 2) + 2) = Called name)
       \<and> calls_of name (trace (snd (retry_loop sv name label max_attempts base q 0 s)))
           = calls_of name (trace s) + length es + 1
       \<and> total_wait (trace (snd (retry_loop sv name label max_attempts base q 0 s)))
           = total_wait (trace s) + base * (\<Sum>i = 1..length es. i)"
proof -
  let ?k = "length es"
  let ?log = "attempts_log name base [1..<Suc ?k]"
  have r: "retry_loop sv name label max_attempts base q 0 s =
      (out, s\<lparr>world := w2, trace := trace s @ ?log @ [Called name]\<rparr>)"
    using retry_loop_recovers [OF assms(1,2), of 0 max_attempts label base] assms(3) by simp
  have len: "length ?log = 2 * ?k" by (simp add: length_attempts_log del: upt_Suc)
  have nth: "(trace s @ ?log @ [Called name]) ! (length (trace s) + 2 * (N - 2) + 1)
               = Slept (base * (N - 1))
           \<and> (trace s @ ?log @ [Called name]) ! (length (trace s) + 2 * (N - 2) + 2)
               = Called name"
    if N: "2 \<le> N" "N \<le> Suc ?k" for N
  proof -
    define j where "j = N - 2"
    have j: "j < Suc ?k - 1" and Nj: "N = j + 2" using N by (simp_all add: j_def)
    from attempts_log_nth [OF j, of name base]
    have a: "?log ! (2 * j + 1) = Slept (base * (1 + j))" by simp
    have in1: "2 * j + 1 < length ?log" using j len by simp
    have first: "(trace s @ ?log @ [Called name]) ! (length (trace s) + 2 * j + 1)
        = Slept (base * (1 + j))"
      using a in1 by (simp add: nth_append add.assoc del: upt_Suc)
    have second: "(trace s @ ?log @ [Called name]) ! (length (trace s) + 2 * j + 2) = Called name"
    proof (cases "Suc j < ?k")
      case True
      then have j': "Suc j < Suc ?k - 1" by simp
      from attempts_log_nth [OF j', of name base]
      have "?log ! (2 * Suc j) = Called name" by simp
      moreover have "2 * Suc j < length ?log" using True len by simp
      ultimately show ?thesis by (simp add: nth_append add.assoc del: upt_Suc)
    next
      case False
      with j have "Suc j = ?k" by simp
      then have "2 * j + 2 = length ?log" using len by simp
      then show ?thesis by (simp add: nth_append add.assoc del: upt_Suc)
    qed
    show ?thesis using first second by (simp add: Nj)
  qed
  have calls: "calls_of name (trace s @ ?log @ [Called name]) = calls_of name (trace s) + ?k + 1"
    by (simp add: calls_of_append calls_of_attempts_log del: upt_Suc) (simp add: calls_of_def)
  have "sum_list [1..<Suc ?k] = (\<Sum>i = 1..?k. i)"
    by (simp add: sum_list_upt atLeastLessThanSuc_atLeastAtMost del: upt_Suc)
  then have wait: "total_wait (trace s @ ?log @ [Called name])
      = total_wait (trace s) + base * (\<Sum>i = 1..?k. i)"
    by (simp add: total_wait_append total_wait_attempts_log del: upt_Suc)
  show ?thesis
    unfolding r using nth calls wait by simp
qed


theorem retry_recovers_with_linear_backoff_witness:
  "fails_with (flaky 2 [''kpi_agent'']) ''kpi_agent'' (PStr ''q'') [''rate limit'', ''rate limit'']
       (world (start 0)) = Some 2
   \<and> executor_invoke (flaky 2 [''kpi_agent'']) ''kpi_agent'' (PStr ''q'') 2 = (Inr (PStr ''ok''), 3)
   \<and> fst (retry_loop (flaky 2 [''kpi_agent'']) ''kpi_agent'' ''KPI'' 3 20 (PStr ''q'') 0 (start 0))
       = PStr ''ok''
   \<and> trace (snd (retry_loop (flaky 2 [''kpi_agent'']) ''kpi_agent'' ''KPI'' 3 20 (PStr ''q'') 0 (start 0)))
       = [Called ''kpi_agent'', Slept 20, Called ''kpi_agent'', Slept 40, Called ''kpi_agent'']
   \<and> total_wait (trace (snd (retry_loop (flaky 2 [''kpi_agent'']) ''kpi_agent'' ''KPI'' 3 20
         (PStr ''q'') 0 (start 0)))) = 60"
proof -
  have h1: "fails_with (flaky 2 [''kpi_agent'']) ''kpi_agent'' (PStr ''q'')
      [''rate limit'', ''rate limit''] (world (start 0)) = Some 2"
    by (simp add: flaky_def start_def)
  have h2: "executor_invoke (flaky 2 [''kpi_agent'']) ''kpi_agent'' (PStr ''q'') 2
      = (Inr (PStr ''ok''), 3)"
    by (simp add: flaky_def)
  have h3: "length [''rate limit'', ''rate limit''] < (3::nat)" by simp
  have s: "(\<Sum>i = 1..2. i) = (3::nat)" by (simp add: numeral_2_eq_2)
  from retry_recovers_with_linear_backoff [OF h1 h2 h3, of "''KPI''" 20] h1 h2 s
  show ?thesis by (simp add: start_def attempts_log_def)
qed

text \<open>
  C5 as stated asks for a wait of \<open>base * N\<close> before attempt \<open>N\<close>. The first failure of
  the ROI worker (base 5) is followed by a wait of 5 seconds before attempt 2, not 10.
\<close>

theorem wait_before_second_attempt_counterexample:
  "trace (snd (ROIAgent_invoke (flaky 1 [''roi_agent''])
       \<lparr>agent_role = ''roi_agent'', agent_oid = 0, agent_executor = False\<rparr> (PStr ''q'') (start 0)))
     = [Called ''roi_agent'', Slept 5, Called ''roi_agent'']
   \<and> Slept 5 \<noteq> Slept (5 * 2)"
  by (simp add: ROIAgent_invoke_def retry_loop.simps flaky_def start_def)


section \<open>Failure isolation in the sequential loop\<close>













section \<open>The worker registry\<close>

lemma constructions_of_append:
  "constructions_of r (xs @ ys) = constructions_of r xs + constructions_of r ys"
  by (simp add: constructions_of_def)

lemma call_factory_cases:
  "call_factory sv name ex s = (res, s1) \<Longrightarrow>
     (\<exists>msg. res = Inl msg \<and> trace s1 = trace s \<and> agents s1 = agents s
              \<and> allocated s1 = allocated s)
   \<or> (res = Inr \<lparr>agent_role = name, agent_oid = allocated s, agent_executor = ex\<rparr>
        \<and> trace s1 = trace s @ [Constructed name] \<and> agents s1 = agents s
        \<and> allocated s1 = Suc (allocated s))"
  by (auto simp: call_factory_def new_agent_def split: prod.splits option.splits)

lemma store_agent_call_factory:
  "store_agent name (call_factory sv name ex s) = (res, s1) \<Longrightarrow>
     (\<exists>msg. res = Inl msg \<and> trace s1 = trace s \<and> agents s1 = agents s)
   \<or> (res = Inr \<lparr>agent_role = name, agent_oid = allocated s, agent_executor = ex\<rparr>
        \<and> trace s1 = trace s @ [Constructed name]
        \<and> agents s1 = (agents s)(name \<mapsto>
             \<lparr>agent_role = name, agent_oid = allocated s, agent_executor = ex\<rparr>))"
proof (cases "call_factory sv name ex s")
  case (Pair res' s')
  assume st: "store_agent name (call_factory sv name ex s) = (res, s1)"
  from call_factory_cases [OF Pair] st Pair show ?thesis
    by (auto simp: store_agent_def)
qed








section \<open>One section: resolution, and what a failing compiler does\<close>

lemma get_agent_compiler: "\<exists>a s'. get_agent sv ''compiler_agent'' s = (Inr a, s')"
  by (cases "agents s ''compiler_agent''")
     (simp_all add: get_agent_def store_agent_def new_agent_def)

lemma mapping_entries_nonempty:
  "map_of section_agent_mapping section = Some roles \<Longrightarrow> roles \<noteq> []"
  by (auto simp: section_agent_mapping_def split: if_splits)

lemma analyze_section_known:
  assumes "mapping_get section \<noteq> []"
  shows "\<exists>s1 s2 results compiler.
           run_agents sv question (mapping_get section) [] s = (results, s1)
         \<and> get_agent sv ''compiler_agent'' s1 = (Inr compiler, s2)
         \<and> analyze_section sv question section s
             = (Result (fst (CompilerAgent_compile sv (compilation_state section question results) s2))
                  section (mapping_get section),
                snd (CompilerAgent_compile sv (compilation_state section question results) s2))"
proof -
  obtain results s1 where r: "run_agents sv question (mapping_get section) [] s = (results, s1)"
    by (cases "run_agents sv question (mapping_get section) [] s")
  obtain compiler s2 where g: "get_agent sv ''compiler_agent'' s1 = (Inr compiler, s2)"
    using get_agent_compiler by blast
  show ?thesis
    using assms r g by (simp add: analyze_section_def Let_def case_prod_beta)
qed

text \<open>
  C6. A section with no entry in the table: \<^verbatim>\<open>analyze_section\<close> returns the error
  \<^verbatim>\<open>No agents defined for section: ...\<close> for that call, and no worker is built or called
  (the state is unchanged). A section with an entry: the lookup gives the entry's role
  list as it is written, the list is not empty, and the call returns a result whose
  metadata carries that list.
\<close>

theorem unknown_section_is_an_error:
  "(map_of section_agent_mapping section = None \<longrightarrow>
      mapping_get section = []
    \<and> analyze_section sv question section s
        = (Error (''No agents defined for section: '' @ section) section None, s))
   \<and> (map_of section_agent_mapping section = Some roles \<longrightarrow>
      mapping_get section = roles \<and> roles \<noteq> []
    \<and> (\<exists>text s'. analyze_section sv question section s = (Result text section roles, s')))"
proof (intro conjI impI)
  assume n: "map_of section_agent_mapping section = None"
  then show "mapping_get section = []" by (simp add: mapping_get_def)
  then show "analyze_section sv question section s
        = (Error (''No agents defined for section: '' @ section) section None, s)"
    by (simp add: analyze_section_def)
next
  assume e: "map_of section_agent_mapping section = Some roles"
  then show m: "mapping_get section = roles" by (simp add: mapping_get_def)
  from e show ne: "roles \<noteq> []" by (rule mapping_entries_nonempty)
  from analyze_section_known [of "section" sv question s] m ne
  show "\<exists>text s'. analyze_section sv question section s = (Result text section roles, s')"
    by auto
qed

theorem unknown_section_is_an_error_witness:
  "map_of section_agent_mapping ''unknown_section'' = None
   \<and> analyze_section (flaky 0 []) ''q'' ''unknown_section'' (start 0)
       = (Error ''No agents defined for section: unknown_section'' ''unknown_section'' None, start 0)
   \<and> map_of section_agent_mapping ''business_context''
       = Some [''exploration_agent'', ''market_agent'', ''sql_agent'']
   \<and> mapping_get ''business_context'' = [''exploration_agent'', ''market_agent'', ''sql_agent'']
   \<and> (\<exists>text s'. analyze_section (flaky 0 []) ''q'' ''business_context'' (start 0)
         = (Result text ''business_context'' [''exploration_agent'', ''market_agent'', ''sql_agent''], s'))"
proof -
  have n: "map_of section_agent_mapping ''unknown_section'' = None"
    by (simp add: section_agent_mapping_def)
  have e: "map_of section_agent_mapping ''business_context''
       = Some [''exploration_agent'', ''market_agent'', ''sql_agent'']"
    by (simp add: section_agent_mapping_def)
  from unknown_section_is_an_error [of "''unknown_section''" "flaky 0 []" "''q''" "start 0"] n
  have a: "analyze_section (flaky 0 []) ''q'' ''unknown_section'' (start 0)
       = (Error ''No agents defined for section: unknown_section'' ''unknown_section'' None, start 0)"
    by simp
  from unknown_section_is_an_error [of "''business_context''" "flaky 0 []" "''q''" "start 0"
      "[''exploration_agent'', ''market_agent'', ''sql_agent'']"] e
  have b: "mapping_get ''business_context'' = [''exploration_agent'', ''market_agent'', ''sql_agent'']
     \<and> (\<exists>text s'. analyze_section (flaky 0 []) ''q'' ''business_context'' (start 0)
         = (Result text ''business_context'' [''exploration_agent'', ''market_agent'', ''sql_agent''], s'))"
    by simp
  from n e a b show ?thesis by simp
qed

text \<open>
  C2, as the code has it. \<^verbatim>\<open>CompilerAgent.compile\<close> catches what its merge call
  raises and returns \<^verbatim>\<open>Error compiling report section: ...\<close> as the text. So for a
  section of the table \<^verbatim>\<open>analyze_section\<close> always returns a result, never an error
  value: whatever the workers did, and also when the merge call raised - then the result
  is that error text. Nothing is escalated to the caller.
\<close>

theorem compiler_failure_becomes_section_text:
  "(llm_invoke sv (prompt_args st) (world s0) = (Inl e, w) \<longrightarrow>
      CompilerAgent_compile sv st s0
        = (''Error compiling report section: '' @ e, emit Merged (s0\<lparr>world := w\<rparr>)))
   \<and> (mapping_get section \<noteq> [] \<longrightarrow>
        (\<exists>text s'. analyze_section sv question section s
                     = (Result text section (mapping_get section), s')))
   \<and> (mapping_get section \<noteq> []
        \<and> run_agents sv question (mapping_get section) [] s = (results, s1)
        \<and> get_agent sv ''compiler_agent'' s1 = (c, s2)
        \<and> llm_invoke sv (prompt_args (compilation_state section question results)) (world s2)
            = (Inl e, w) \<longrightarrow>
        fst (analyze_section sv question section s)
          = Result (''Error compiling report section: '' @ e) section (mapping_get section))"
proof (intro conjI impI)
  assume "llm_invoke sv (prompt_args st) (world s0) = (Inl e, w)"
  then show "CompilerAgent_compile sv st s0
        = (''Error compiling report section: '' @ e, emit Merged (s0\<lparr>world := w\<rparr>))"
    by (simp add: CompilerAgent_compile_def)
next
  assume "mapping_get section \<noteq> []"
  from analyze_section_known [OF this, of sv question s]
  show "\<exists>text s'. analyze_section sv question section s
                     = (Result text section (mapping_get section), s')"
    by blast
next
  assume a: "mapping_get section \<noteq> []
        \<and> run_agents sv question (mapping_get section) [] s = (results, s1)
        \<and> get_agent sv ''compiler_agent'' s1 = (c, s2)
        \<and> llm_invoke sv (prompt_args (compilation_state section question results)) (world s2)
            = (Inl e, w)"
  from analyze_section_known [of "section" sv question s] a
  have "fst (analyze_section sv question section s)
      = Result (fst (CompilerAgent_compile sv (compilation_state section question results) s2))
          section (mapping_get section)"
    by auto
  with a show "fst (analyze_section sv question section s)
          = Result (''Error compiling report section: '' @ e) section (mapping_get section)"
    by (simp add: CompilerAgent_compile_def)
qed

theorem compiler_failure_becomes_section_text_witness:
  "mapping_get ''executive_summary'' = [''exploration_agent'']
   \<and> fst (analyze_section llm_down ''q'' ''executive_summary'' (start 0))
       = Result ''Error compiling report section: boom'' ''executive_summary'' [''exploration_agent'']
   \<and> (\<exists>text s'. analyze_section llm_down ''q'' ''executive_summary'' (start 0)
         = (Result text ''executive_summary'' [''exploration_agent''], s'))"
proof -
  let ?run = "run_agents llm_down ''q'' (mapping_get ''executive_summary'') [] (start 0)"
  let ?get = "get_agent llm_down ''compiler_agent'' (snd ?run)"
  have m: "mapping_get ''executive_summary'' = [''exploration_agent'']"
    by (simp add: mapping_get_def section_agent_mapping_def)
  have l: "llm_invoke llm_down
             (prompt_args (compilation_state ''executive_summary'' ''q'' (fst ?run)))
             (world (snd ?get))
      = (Inl ''boom'', world (snd ?get))"
    by (simp add: llm_down_def)
  have r: "?run = (fst ?run, snd ?run)" and g: "?get = (fst ?get, snd ?get)" by simp_all
  from compiler_failure_becomes_section_text [of llm_down _ _ "''boom''" "world (snd ?get)"
      "''executive_summary''" "''q''" "start 0" "fst ?run" "snd ?run" "fst ?get" "snd ?get"]
    m l r g
  show ?thesis by (simp del: run_agents.simps)
qed

text \<open>
  C2 as stated has the run abort with a structured error when the merge call raises.
  With a model that raises \<^verbatim>\<open>boom\<close>, \<^verbatim>\<open>analyze_section\<close> returns an ordinary result
  whose text is the compiler's error message; it has no \<^verbatim>\<open>error\<close> key.
\<close>

theorem compiler_failure_not_escalated_counterexample:
  "get_error (fst (analyze_section llm_down ''q'' ''executive_summary'' (start 0))) = None
   \<and> get_result (fst (analyze_section llm_down ''q'' ''executive_summary'' (start 0)))
       = ''Error compiling report section: boom''"
  by (simp add: analyze_section_def mapping_get_def section_agent_mapping_def run_agent_def
        get_agent_def store_agent_def call_factory_def new_agent_def
        DataExplorationAgent_analyze_def CompilerAgent_compile_def llm_down_def flaky_def
        start_def Let_def)

text \<open>
  C3, as the code has it. \<^verbatim>\<open>compile\<close> does not raise on any state, so not on one whose
  entries are all failures: it returns the model's reply, or the text of its own handler
  when the merge call raised. The returned text is not empty unless the model's reply was
  the empty text.
\<close>

theorem compile_never_raises:
  "fst (CompilerAgent_compile sv st s)
     = (case fst (llm_invoke sv (prompt_args st) (world s)) of
          Inl e \<Rightarrow> ''Error compiling report section: '' @ e
        | Inr content \<Rightarrow> content)
   \<and> (fst (llm_invoke sv (prompt_args st) (world s)) \<noteq> Inr [] \<longrightarrow>
        fst (CompilerAgent_compile sv st s) \<noteq> [])"
  by (cases "llm_invoke sv (prompt_args st) (world s)")
     (auto simp: CompilerAgent_compile_def split: sum.splits)

theorem compile_never_raises_witness:
  "fst (run_agents (flaky 1 [''market_agent'']) ''q'' (mapping_get ''implementation'') [] (start 0))
     = [(''market_agent'', PDict [(''error'', PStr ''rate limit'')])]
   \<and> fst (llm_invoke (flaky 1 [''market_agent''])
        (prompt_args (compilation_state ''implementation'' ''q''
           [(''market_agent'', PDict [(''error'', PStr ''rate limit'')])])) (world (start 1)))
       \<noteq> Inr []
   \<and> fst (CompilerAgent_compile (flaky 1 [''market_agent''])
        (compilation_state ''implementation'' ''q''
           [(''market_agent'', PDict [(''error'', PStr ''rate limit'')])]) (start 1))
       = ''section text''"
proof -
  have r: "fst (run_agents (flaky 1 [''market_agent'']) ''q'' (mapping_get ''implementation'') []
       (start 0)) = [(''market_agent'', PDict [(''error'', PStr ''rate limit'')])]"
    by (simp add: mapping_get_def section_agent_mapping_def run_agent_def get_agent_def
          store_agent_def call_factory_def new_agent_def opaque_invoke_def flaky_def start_def)
  have l: "fst (llm_invoke (flaky 1 [''market_agent''])
        (prompt_args (compilation_state ''implementation'' ''q''
           [(''market_agent'', PDict [(''error'', PStr ''rate limit'')])])) (world (start 1)))
       = Inr ''section text''"
    by (simp add: flaky_def)
  from compile_never_raises [of "flaky 1 [''market_agent'']"
      "compilation_state ''implementation'' ''q''
           [(''market_agent'', PDict [(''error'', PStr ''rate limit'')])]" "start 1"] r l
  show ?thesis by simp
qed

text \<open>
  C3 as stated promises a non-empty text. The section \<^verbatim>\<open>implementation\<close> needs the
  market worker only; when that worker raises, the aggregated state holds one failure
  entry, and when the model then replies with the empty text, that empty text is the
  section.
\<close>

theorem compile_empty_text_counterexample:
  "fst (run_agents llm_silent ''q'' (mapping_get ''implementation'') [] (start 0))
     = [(''market_agent'', PDict [(''error'', PStr ''rate limit'')])]
   \<and> fst (CompilerAgent_compile llm_silent
        (compilation_state ''implementation'' ''q''
           [(''market_agent'', PDict [(''error'', PStr ''rate limit'')])]) (start 1)) = []
   \<and> fst (analyze_section llm_silent ''q'' ''implementation'' (start 0))
       = Result [] ''implementation'' [''market_agent'']"
  by (simp add: analyze_section_def mapping_get_def section_agent_mapping_def run_agent_def
        get_agent_def store_agent_def call_factory_def new_agent_def opaque_invoke_def
        CompilerAgent_compile_def llm_silent_def flaky_def start_def Let_def)


section \<open>The whole report\<close>













section \<open>What a worker call leaves in the log\<close>

lemma roles_ok_emit [simp]: "roles_ok (emit e s) = roles_ok s"
  by (simp add: roles_ok_def)

lemma roles_ok_sleep [simp]: "roles_ok (sleep n s) = roles_ok s"
  by (simp add: roles_ok_def)

lemma roles_ok_world [simp]: "roles_ok (s\<lparr>world := w\<rparr>) = roles_ok s"
  by (simp add: roles_ok_def)

lemma steps_refl: "roles_ok s \<Longrightarrow> steps A s s"
  by (simp add: steps_def)

lemma steps_trans: "steps A s s1 \<Longrightarrow> steps A s1 s2 \<Longrightarrow> steps A s s2"
  by (auto simp: steps_def)

lemma steps_emit: "steps A s s1 \<Longrightarrow> e \<in> A \<Longrightarrow> steps A s (emit e s1)"
  by (auto simp: steps_def)

lemma steps_sleep: "steps A s s1 \<Longrightarrow> Slept n \<in> A \<Longrightarrow> steps A s (sleep n s1)"
  by (auto simp: steps_def)

lemma steps_world: "roles_ok s \<Longrightarrow> steps A s (s\<lparr>world := w\<rparr>)"
  by (simp add: steps_def)

lemma steps_roles_ok: "steps A s s1 \<Longrightarrow> roles_ok s1"
  by (simp add: steps_def)

lemma Called_in_call_events [simp]: "Called name \<in> call_events name"
  and Slept_in_call_events [simp]: "Slept n \<in> call_events name"
  by (simp_all add: call_events_def)

lemma retry_loop_steps:
  "roles_ok s \<Longrightarrow>
     steps (call_events name) s (snd (retry_loop sv name label max_attempts base q attempt s))"
proof (induction sv name label max_attempts base q attempt s rule: retry_loop.induct)
  case (1 sv name label max_attempts base query attempt s)
  show ?case
  proof (cases "attempt < max_attempts")
    case False
    then show ?thesis using "1.prems" by (simp add: retry_loop.simps steps_refl)
  next
    case True
    obtain r w where ex: "executor_invoke sv name query (world s) = (r, w)"
      by (cases "executor_invoke sv name query (world s)")
    have base: "steps (call_events name) s (emit (Called name) (s\<lparr>world := w\<rparr>))"
      using "1.prems" by (simp add: steps_emit steps_world)
    show ?thesis
    proof (cases r)
      case (Inr out)
      with True ex base show ?thesis by (simp add: retry_loop.simps)
    next
      case (Inl e)
      show ?thesis
      proof (cases "attempt + 1 < max_attempts")
        case False
        with True ex Inl base show ?thesis by (simp add: retry_loop.simps)
      next
        case again: True
        let ?s' = "sleep (base * (attempt + 1)) (emit (Called name) (s\<lparr>world := w\<rparr>))"
        have s': "steps (call_events name) s ?s'" using base by (simp add: steps_sleep)
        then have ok: "roles_ok ?s'" by (rule steps_roles_ok)
        from "1.IH" [OF True ex [symmetric] Inl again ok]
        have "steps (call_events name) ?s'
            (snd (retry_loop sv name label max_attempts base query (attempt + 1) ?s'))" .
        from steps_trans [OF s' this] True ex Inl again show ?thesis
          by (simp add: retry_loop.simps)
      qed
    qed
  qed
qed

lemma KPIAgent_invoke_steps:
  "roles_ok s \<Longrightarrow> steps (call_events (agent_role a)) s (snd (KPIAgent_invoke sv a q s))"
  using retry_loop_steps [of s "agent_role a" sv "''KPI''" 3 20 q 0]
  by (simp add: KPIAgent_invoke_def case_prod_beta)

lemma ROIAgent_invoke_steps:
  assumes "roles_ok s"
  shows "steps (call_events (agent_role a)) s (snd (ROIAgent_invoke sv a q s))"
proof (cases "agent_executor a")
  case True
  then show ?thesis
    using retry_loop_steps [OF assms, of "agent_role a" sv "''ROI''" 2 5 q 0]
    by (simp add: ROIAgent_invoke_def case_prod_beta)
next
  case False
  obtain r w where c: "create_agent sv (world s) = (r, w)"
    by (cases "create_agent sv (world s)")
  show ?thesis
  proof (cases r)
    case (Some msg)
    with False c assms show ?thesis
      by (simp add: ROIAgent_invoke_def steps_world)
  next
    case None
    let ?s' = "s\<lparr>world := w,
                 agents := (agents s)(agent_role a \<mapsto> a\<lparr>agent_executor := True\<rparr>)\<rparr>"
    have ok: "roles_ok ?s'" using assms by (simp add: roles_ok_def)
    then have first: "steps (call_events (agent_role a)) s ?s'" by (simp add: steps_def)
    from steps_trans [OF first retry_loop_steps [OF ok, of "agent_role a" sv "''ROI''" 2 5 q 0]]
      False c None
    show ?thesis by (simp add: ROIAgent_invoke_def case_prod_beta)
  qed
qed

lemma DataExplorationAgent_analyze_steps:
  "roles_ok s \<Longrightarrow>
     steps (call_events (agent_role a)) s (snd (DataExplorationAgent_analyze sv a q s))"
  by (cases "executor_invoke sv (agent_role a) q (world s)")
     (auto simp: DataExplorationAgent_analyze_def steps_emit steps_world split: sum.splits)

lemma opaque_invoke_steps:
  "roles_ok s \<Longrightarrow> steps (call_events (agent_role a)) s (snd (opaque_invoke sv a q s))"
  by (cases "executor_invoke sv (agent_role a) q (world s)")
     (simp add: opaque_invoke_def steps_emit steps_world)

lemma with_agent_steps:
  assumes "roles_ok s"
      and "\<And>a. steps (call_events (agent_role a)) s (snd (call a s))"
  shows "steps (call_events name) s (snd (with_agent name call s))"
proof (cases "agents s name")
  case None
  with assms(1) show ?thesis by (simp add: with_agent_def steps_refl)
next
  case (Some a)
  with assms(1) have "agent_role a = name" by (simp add: roles_ok_def)
  with assms(2) [of a] Some show ?thesis by (simp add: with_agent_def)
qed

lemma worker_node_effect:
  assumes "steps (call_events name) s (snd (call s))"
      and "worker_node name key label put call st s = (st1, s1)"
  shows "if name \<in> set (mapping_get (current_section st))
         then (\<exists>v. st1 = put v st) \<and> roles_ok s1
              \<and> (\<exists>tr. trace s1 = trace s @ tr @ [Stored key] \<and> set tr \<subseteq> call_events name)
         else st1 = st \<and> s1 = s"
proof (cases "name \<in> set (mapping_get (current_section st))")
  case False
  with assms(2) show ?thesis by (simp add: worker_node_def)
next
  case True
  obtain r s' where c: "call s = (r, s')" by (cases "call s")
  with assms(1) have st: "steps (call_events name) s s'" by simp
  from assms(2) True c have s1: "s1 = emit (Stored key) s'" and "\<exists>v. st1 = put v st"
    by (auto simp: worker_node_def split: sum.splits)
  with st True show ?thesis by (auto simp: steps_def)
qed


section \<open>The nodes of the graph\<close>

lemma run_exploration_effect:
  assumes "roles_ok s" and "run_exploration sv st s = (st1, s1)"
  shows "if ''exploration_agent'' \<in> set (mapping_get (current_section st))
         then (\<exists>v. st1 = st\<lparr>exploration_results := v\<rparr>) \<and> roles_ok s1
              \<and> (\<exists>tr. trace s1 = trace s @ tr @ [Stored ''exploration_results'']
                    \<and> set tr \<subseteq> call_events ''exploration_agent'')
         else st1 = st \<and> s1 = s"
proof -
  have c: "steps (call_events ''exploration_agent'') s
      (snd (with_agent ''exploration_agent'' (\<lambda>a. DataExplorationAgent_analyze sv a q) s))" for q
    by (rule with_agent_steps [OF assms(1)]) (rule DataExplorationAgent_analyze_steps [OF assms(1)])
  note e = worker_node_effect [OF _ assms(2) [unfolded run_exploration_def]]
  from e [OF c] show ?thesis by (auto split: if_splits)
qed

lemma run_sql_effect:
  assumes "roles_ok s" and "run_sql sv st s = (st1, s1)"
  shows "if ''sql_agent'' \<in> set (mapping_get (current_section st))
         then (\<exists>v. st1 = st\<lparr>sql_results := v\<rparr>) \<and> roles_ok s1
              \<and> (\<exists>tr. trace s1 = trace s @ tr @ [Stored ''sql_results'']
                    \<and> set tr \<subseteq> call_events ''sql_agent'')
         else st1 = st \<and> s1 = s"
proof -
  have c: "steps (call_events ''sql_agent'') s
      (snd (with_agent ''sql_agent'' (\<lambda>a. opaque_invoke sv a q) s))" for q
    by (rule with_agent_steps [OF assms(1)]) (rule opaque_invoke_steps [OF assms(1)])
  note e = worker_node_effect [OF _ assms(2) [unfolded run_sql_def]]
  from e [OF c] show ?thesis by (auto split: if_splits)
qed

lemma run_roi_effect:
  assumes "roles_ok s" and "run_roi sv st s = (st1, s1)"
  shows "if ''roi_agent'' \<in> set (mapping_get (current_section st))
         then (\<exists>v. st1 = st\<lparr>roi_results := v\<rparr>) \<and> roles_ok s1
              \<and> (\<exists>tr. trace s1 = trace s @ tr @ [Stored ''roi_results'']
                    \<and> set tr \<subseteq> call_events ''roi_agent'')
         else st1 = st \<and> s1 = s"
proof -
  have c: "steps (call_events ''roi_agent'') s
      (snd (with_agent ''roi_agent'' (\<lambda>a. ROIAgent_invoke sv a q) s))" for q
    by (rule with_agent_steps [OF assms(1)]) (rule ROIAgent_invoke_steps [OF assms(1)])
  note e = worker_node_effect [OF _ assms(2) [unfolded run_roi_def]]
  from e [OF c] show ?thesis by (auto split: if_splits)
qed

lemma run_budget_effect:
  assumes "roles_ok s" and "run_budget sv st s = (st1, s1)"
  shows "if ''budget_agent'' \<in> set (mapping_get (current_section st))
         then (\<exists>v. st1 = st\<lparr>budget_results := v\<rparr>) \<and> roles_ok s1
              \<and> (\<exists>tr. trace s1 = trace s @ tr @ [Stored ''budget_results'']
                    \<and> set tr \<subseteq> call_events ''budget_agent'')
         else st1 = st \<and> s1 = s"
proof -
  have c: "steps (call_events ''budget_agent'') s
      (snd (with_agent ''budget_agent'' (\<lambda>a. opaque_invoke sv a q) s))" for q
    by (rule with_agent_steps [OF assms(1)]) (rule opaque_invoke_steps [OF assms(1)])
  note e = worker_node_effect [OF _ assms(2) [unfolded run_budget_def]]
  from e [OF c] show ?thesis by (auto split: if_splits)
qed

lemma run_kpi_effect:
  assumes "roles_ok s" and "run_kpi sv st s = (st1, s1)"
  shows "if ''kpi_agent'' \<in> set (mapping_get (current_section st))
         then (\<exists>v. st1 = st\<lparr>kpi_results := v\<rparr>) \<and> roles_ok s1
              \<and> (\<exists>tr. trace s1 = trace s @ tr @ [Stored ''kpi_results'']
                    \<and> set tr \<subseteq> call_events ''kpi_agent'')
         else st1 = st \<and> s1 = s"
proof -
  have c: "steps (call_events ''kpi_agent'') s
      (snd (with_agent ''kpi_agent'' (\<lambda>a. KPIAgent_invoke sv a q) s))" for q
    by (rule with_agent_steps [OF assms(1)]) (rule KPIAgent_invoke_steps [OF assms(1)])
  note e = worker_node_effect [OF _ assms(2) [unfolded run_kpi_def]]
  from e [OF c] show ?thesis by (auto split: if_splits)
qed

lemma run_market_effect:
  assumes "roles_ok s" and "run_market sv st s = (st1, s1)"
  shows "if ''market_agent'' \<in> set (mapping_get (current_section st))
         then (\<exists>v. st1 = st\<lparr>market_results := v\<rparr>) \<and> roles_ok s1
              \<and> (\<exists>tr. trace s1 = trace s @ tr @ [Stored ''market_results'']
                    \<and> set tr \<subseteq> call_events ''market_agent'')
         else st1 = st \<and> s1 = s"
proof -
  have c: "steps (call_events ''market_agent'') s
      (snd (with_agent ''market_agent'' (\<lambda>a. opaque_invoke sv a q) s))" for q
    by (rule with_agent_steps [OF assms(1)]) (rule opaque_invoke_steps [OF assms(1)])
  note e = worker_node_effect [OF _ assms(2) [unfolded run_market_def]]
  from e [OF c] show ?thesis by (auto split: if_splits)
qed


lemma as_dict_other:
  "k \<noteq> ''exploration_results'' \<Longrightarrow> as_dict (st\<lparr>exploration_results := v\<rparr>) k = as_dict st k"
  "k \<noteq> ''sql_results'' \<Longrightarrow> as_dict (st\<lparr>sql_results := v\<rparr>) k = as_dict st k"
  "k \<noteq> ''roi_results'' \<Longrightarrow> as_dict (st\<lparr>roi_results := v\<rparr>) k = as_dict st k"
  "k \<noteq> ''budget_results'' \<Longrightarrow> as_dict (st\<lparr>budget_results := v\<rparr>) k = as_dict st k"
  "k \<noteq> ''kpi_results'' \<Longrightarrow> as_dict (st\<lparr>kpi_results := v\<rparr>) k = as_dict st k"
  "k \<noteq> ''market_results'' \<Longrightarrow> as_dict (st\<lparr>market_results := v\<rparr>) k = as_dict st k"
  by (simp_all add: as_dict_def)

lemma node_table_at:
  "map_of node_table ''exploration'' = Some (''exploration_agent'', ''exploration_results'')"
  "map_of node_table ''sql'' = Some (''sql_agent'', ''sql_results'')"
  "map_of node_table ''roi'' = Some (''roi_agent'', ''roi_results'')"
  "map_of node_table ''budget'' = Some (''budget_agent'', ''budget_results'')"
  "map_of node_table ''kpi'' = Some (''kpi_agent'', ''kpi_results'')"
  "map_of node_table ''market'' = Some (''market_agent'', ''market_results'')"
  by (simp_all add: node_table_def)

lemma node_table_none: "node \<notin> set worker_nodes \<Longrightarrow> map_of node_table node = None"
  by (simp add: node_table_def worker_nodes_def)

lemma run_node_other: "node \<notin> set worker_nodes \<Longrightarrow> run_node sv node st s = (st, s)"
  by (simp add: run_node_def worker_nodes_def)

lemma run_node_effect:
  assumes "roles_ok s" and "run_node sv node st s = (st1, s1)"
  shows "current_section st1 = current_section st \<and> roles_ok s1 \<and>
     (case map_of node_table node of
        Some (role, key) \<Rightarrow>
          if role \<in> set (mapping_get (current_section st))
          then (\<exists>tr. trace s1 = trace s @ tr @ [Stored key] \<and> set tr \<subseteq> call_events role)
               \<and> (\<forall>k. k \<noteq> key \<longrightarrow> as_dict st1 k = as_dict st k)
          else st1 = st \<and> s1 = s
      | None \<Rightarrow> st1 = st \<and> s1 = s)"
proof -
  consider (exploration) "node = ''exploration''" | (sql) "node = ''sql''" | (roi) "node = ''roi''" | (budget) "node = ''budget''" | (kpi) "node = ''kpi''" | (market) "node = ''market''"
    | (other) "node \<notin> set worker_nodes"
    by (auto simp: worker_nodes_def)
  then show ?thesis
  proof cases
    case exploration
    with assms(2) have r: "run_exploration sv st s = (st1, s1)" by (simp add: run_node_def)
    show ?thesis
    proof (cases "''exploration_agent'' \<in> set (mapping_get (current_section st))")
      case True
      with run_exploration_effect [OF assms(1) r] obtain v where
        "st1 = st\<lparr>exploration_results := v\<rparr>" "roles_ok s1"
        "\<exists>tr. trace s1 = trace s @ tr @ [Stored ''exploration_results''] \<and> set tr \<subseteq> call_events ''exploration_agent''"
        by auto
      with True show ?thesis
        unfolding exploration node_table_at by (simp add: as_dict_other)
    next
      case False
      with run_exploration_effect [OF assms(1) r] have "st1 = st" "s1 = s" by simp_all
      with False assms(1) show ?thesis
        unfolding exploration node_table_at by simp
    qed
  next
    case sql
    with assms(2) have r: "run_sql sv st s = (st1, s1)" by (simp add: run_node_def)
    show ?thesis
    proof (cases "''sql_agent'' \<in> set (mapping_get (current_section st))")
      case True
      with run_sql_effect [OF assms(1) r] obtain v where
        "st1 = st\<lparr>sql_results := v\<rparr>" "roles_ok s1"
        "\<exists>tr. trace s1 = trace s @ tr @ [Stored ''sql_results''] \<and> set tr \<subseteq> call_events ''sql_agent''"
        by auto
      with True show ?thesis
        unfolding sql node_table_at by (simp add: as_dict_other)
    next
      case False
      with run_sql_effect [OF assms(1) r] have "st1 = st" "s1 = s" by simp_all
      with False assms(1) show ?thesis
        unfolding sql node_table_at by simp
    qed
  next
    case roi
    with assms(2) have r: "run_roi sv st s = (st1, s1)" by (simp add: run_node_def)
    show ?thesis
    proof (cases "''roi_agent'' \<in> set (mapping_get (current_section st))")
      case True
      with run_roi_effect [OF assms(1) r] obtain v where
        "st1 = st\<lparr>roi_results := v\<rparr>" "roles_ok s1"
        "\<exists>tr. trace s1 = trace s @ tr @ [Stored ''roi_results''] \<and> set tr \<subseteq> call_events ''roi_agent''"
        by auto
      with True show ?thesis
        unfolding roi node_table_at by (simp add: as_dict_other)
    next
      case False
      with run_roi_effect [OF assms(1) r] have "st1 = st" "s1 = s" by simp_all
      with False assms(1) show ?thesis
        unfolding roi node_table_at by simp
    qed
  next
    case budget
    with assms(2) have r: "run_budget sv st s = (st1, s1)" by (simp add: run_node_def)
    show ?thesis
    proof (cases "''budget_agent'' \<in> set (mapping_get (current_section st))")
      case True
      with run_budget_effect [OF assms(1) r] obtain v where
        "st1 = st\<lparr>budget_results := v\<rparr>" "roles_ok s1"
        "\<exists>tr. trace s1 = trace s @ tr @ [Stored ''budget_results''] \<and> set tr \<subseteq> call_events ''budget_agent''"
        by auto
      with True show ?thesis
        unfolding budget node_table_at by (simp add: as_dict_other)
    next
      case False
      with run_budget_effect [OF assms(1) r] have "st1 = st" "s1 = s" by simp_all
      with False assms(1) show ?thesis
        unfolding budget node_table_at by simp
    qed
  next
    case kpi
    with assms(2) have r: "run_kpi sv st s = (st1, s1)" by (simp add: run_node_def)
    show ?thesis
    proof (cases "''kpi_agent'' \<in> set (mapping_get (current_section st))")
      case True
      with run_kpi_effect [OF assms(1) r] obtain v where
        "st1 = st\<lparr>kpi_results := v\<rparr>" "roles_ok s1"
        "\<exists>tr. trace s1 = trace s @ tr @ [Stored ''kpi_results''] \<and> set tr \<subseteq> call_events ''kpi_agent''"
        by auto
      with True show ?thesis
        unfolding kpi node_table_at by (simp add: as_dict_other)
    next
      case False
      with run_kpi_effect [OF assms(1) r] have "st1 = st" "s1 = s" by simp_all
      with False assms(1) show ?thesis
        unfolding kpi node_table_at by simp
    qed
  next
    case market
    with assms(2) have r: "run_market sv st s = (st1, s1)" by (simp add: run_node_def)
    show ?thesis
    proof (cases "''market_agent'' \<in> set (mapping_get (current_section st))")
      case True
      with run_market_effect [OF assms(1) r] obtain v where
        "st1 = st\<lparr>market_results := v\<rparr>" "roles_ok s1"
        "\<exists>tr. trace s1 = trace s @ tr @ [Stored ''market_results''] \<and> set tr \<subseteq> call_events ''market_agent''"
        by auto
      with True show ?thesis
        unfolding market node_table_at by (simp add: as_dict_other)
    next
      case False
      with run_market_effect [OF assms(1) r] have "st1 = st" "s1 = s" by simp_all
      with False assms(1) show ?thesis
        unfolding market node_table_at by simp
    qed
  next
    case other
    from run_node_other [OF other, of sv st s] assms have "st1 = st" "s1 = s" by simp_all
    with assms(1) show ?thesis by (simp add: node_table_none [OF other])
  qed
qed


lemma log_counts:
  assumes "trace s1 = trace s @ tr @ [Stored key]" and "set tr \<subseteq> call_events role"
  shows "writes_of k (trace s1) = writes_of k (trace s) + (if k = key then 1 else 0)"
    and "r \<noteq> role \<Longrightarrow> calls_of r (trace s1) = calls_of r (trace s)"
    and "constructions_of r (trace s1) = constructions_of r (trace s)"
proof -
  have w: "filter (\<lambda>e. e = Stored k) tr = []"
    and c: "filter (\<lambda>e. e = Constructed r) tr = []"
    using assms(2) by (auto simp: filter_empty_conv call_events_def)
  have l: "r \<noteq> role \<Longrightarrow> filter (\<lambda>e. e = Called r) tr = []"
    using assms(2) by (auto simp: filter_empty_conv call_events_def)
  show "writes_of k (trace s1) = writes_of k (trace s) + (if k = key then 1 else 0)"
    by (simp add: writes_of_def assms(1) w)
  show "constructions_of r (trace s1) = constructions_of r (trace s)"
    by (simp add: constructions_of_def assms(1) c)
  show "r \<noteq> role \<Longrightarrow> calls_of r (trace s1) = calls_of r (trace s)"
    by (simp add: calls_of_def assms(1) l)
qed

lemma node_table_rows:
  assumes "(n1, r1, k1) \<in> set node_table" and "(n2, r2, k2) \<in> set node_table"
  shows "(k1 = k2) = (n1 = n2)" and "(r1 = r2) = (n1 = n2)"
  using assms by (auto simp: node_table_def)

lemma node_table_lookup:
  "(n, r, k) \<in> set node_table \<Longrightarrow> map_of node_table n = Some (r, k)"
  by (auto simp: node_table_def)

lemma node_table_lookup_rev:
  "map_of node_table n = Some (r, k) \<Longrightarrow> (n, r, k) \<in> set node_table"
  by (rule map_of_SomeD)


lemma run_node_row:
  assumes ok: "roles_ok s" and run: "run_node sv n st s = (st', s')"
      and row: "(node, role, key) \<in> set node_table"
  shows "writes_of key (trace s') = writes_of key (trace s)
           + (if role \<in> set (mapping_get (current_section st)) \<and> node = n then 1 else 0)"
    and "role \<notin> set (mapping_get (current_section st)) \<Longrightarrow>
           as_dict st' key = as_dict st key \<and> calls_of role (trace s') = calls_of role (trace s)"
    and "constructions_of r (trace s') = constructions_of r (trace s)"
proof -
  note e = run_node_effect [OF ok run]
  show "writes_of key (trace s') = writes_of key (trace s)
           + (if role \<in> set (mapping_get (current_section st)) \<and> node = n then 1 else 0)"
  proof (cases "map_of node_table n")
    case None
    with e have "s' = s" by simp
    moreover from None row have "node \<noteq> n" using node_table_lookup by fastforce
    ultimately show ?thesis by simp
  next
    case (Some p)
    obtain rn kn where p: "p = (rn, kn)" by (cases p)
    from Some p have rown: "(n, rn, kn) \<in> set node_table" by (simp add: node_table_lookup_rev)
    show ?thesis
    proof (cases "rn \<in> set (mapping_get (current_section st))")
      case True
      with e Some p obtain tr where
        tr: "trace s' = trace s @ tr @ [Stored kn]" "set tr \<subseteq> call_events rn" by auto
      have "(key = kn) = (node = n)" "(role = rn) = (node = n)"
        using node_table_rows [OF row rown] by simp_all
      with log_counts(1) [OF tr, of key] True show ?thesis by auto
    next
      case False
      with e Some p have "s' = s" by simp
      moreover have "(role = rn) = (node = n)" using node_table_rows [OF row rown] by simp
      ultimately show ?thesis using False by auto
    qed
  qed
  show "constructions_of r (trace s') = constructions_of r (trace s)"
  proof (cases "map_of node_table n")
    case None
    with e show ?thesis by simp
  next
    case (Some p)
    obtain rn kn where p: "p = (rn, kn)" by (cases p)
    show ?thesis
    proof (cases "rn \<in> set (mapping_get (current_section st))")
      case True
      with e Some p obtain tr where
        tr: "trace s' = trace s @ tr @ [Stored kn]" "set tr \<subseteq> call_events rn" by auto
      from log_counts(3) [OF tr] show ?thesis .
    next
      case False
      with e Some p show ?thesis by simp
    qed
  qed
  show "as_dict st' key = as_dict st key \<and> calls_of role (trace s') = calls_of role (trace s)"
    if nr: "role \<notin> set (mapping_get (current_section st))"
  proof (cases "map_of node_table n")
    case None
    with e show ?thesis by simp
  next
    case (Some p)
    obtain rn kn where p: "p = (rn, kn)" by (cases p)
    from Some p have rown: "(n, rn, kn) \<in> set node_table" by (simp add: node_table_lookup_rev)
    show ?thesis
    proof (cases "rn \<in> set (mapping_get (current_section st))")
      case True
      with e Some p obtain tr where
        tr: "trace s' = trace s @ tr @ [Stored kn]" "set tr \<subseteq> call_events rn"
        and d: "\<forall>k. k \<noteq> kn \<longrightarrow> as_dict st' k = as_dict st k" by auto
      from True nr have ne: "role \<noteq> rn" by auto
      then have "node \<noteq> n" using node_table_rows(2) [OF row rown] by simp
      then have "key \<noteq> kn" using node_table_rows(1) [OF row rown] by simp
      with d log_counts(2) [OF tr ne] show ?thesis by simp
    next
      case False
      with e Some p show ?thesis by simp
    qed
  qed
qed

lemma compile_results_effect:
  assumes "compile_results sv st s = (st1, s1)"
  shows "calls_of r (trace s1) = calls_of r (trace s)"
    and "constructions_of r (trace s1) = constructions_of r (trace s)"
    and "writes_of k (trace s1) = writes_of k (trace s)"
    and "k \<noteq> ''final_answer'' \<Longrightarrow> as_dict st1 k = as_dict st k"
proof -
  have "(\<exists>fa. st1 = st\<lparr>final_answer := fa\<rparr>) \<and> (trace s1 = trace s \<or> trace s1 = trace s @ [Merged])"
    using assms
    by (auto simp: compile_results_def CompilerAgent_compile_def
             split: option.splits prod.splits sum.splits)
  then obtain fa where st1: "st1 = st\<lparr>final_answer := fa\<rparr>"
    and tr: "trace s1 = trace s \<or> trace s1 = trace s @ [Merged]" by blast
  from tr show "calls_of r (trace s1) = calls_of r (trace s)"
    by (auto simp: calls_of_def)
  from tr show "constructions_of r (trace s1) = constructions_of r (trace s)"
    by (auto simp: constructions_of_def)
  from tr show "writes_of k (trace s1) = writes_of k (trace s)"
    by (auto simp: writes_of_def)
  show "k \<noteq> ''final_answer'' \<Longrightarrow> as_dict st1 k = as_dict st k"
    by (simp add: st1 as_dict_def)
qed

lemma roles_ok_agents: "agents s1 = agents s \<Longrightarrow> roles_ok s1 = roles_ok s"
  by (simp add: roles_ok_def)

lemma roles_ok_store:
  "roles_ok s \<Longrightarrow> agents s1 = (agents s)(name \<mapsto> a) \<Longrightarrow> agent_role a = name \<Longrightarrow> roles_ok s1"
  by (simp add: roles_ok_def)

lemma build_all_ok:
  "build_all sv rows s = (None, s1) \<Longrightarrow> roles_ok s \<Longrightarrow>
     roles_ok s1 \<and> trace s1 = trace s @ map (\<lambda>row. Constructed (fst row)) rows
   \<and> (\<forall>name. agents s name \<noteq> None \<or> name \<in> fst ` set rows \<longrightarrow> agents s1 name \<noteq> None)"
proof (induction rows arbitrary: s)
  case Nil
  then show ?case by simp
next
  case (Cons row rows)
  obtain name ex where row: "row = (name, ex)" by (cases row)
  obtain res s' where st: "store_agent name (call_factory sv name ex s) = (res, s')"
    by (cases "store_agent name (call_factory sv name ex s)")
  from Cons.prems(1) row st obtain a where res: "res = Inr a"
    and rest: "build_all sv rows s' = (None, s1)"
    by (cases res) auto
  from store_agent_call_factory [OF st] res
  have tr: "trace s' = trace s @ [Constructed name]"
    and ag: "agents s' = (agents s)(name \<mapsto>
               \<lparr>agent_role = name, agent_oid = allocated s, agent_executor = ex\<rparr>)"
    by auto
  have ok': "roles_ok s'" using roles_ok_store [OF Cons.prems(2) ag] by simp
  from Cons.IH [OF rest ok'] tr ag row show ?case by auto
qed

lemma SupervisorAgent_init_ok:
  assumes "SupervisorAgent_init sv s0 = (None, s)" and "roles_ok s0"
  shows "roles_ok s"
    and "trace s = trace s0 @ map Constructed
           [''exploration_agent'', ''sql_agent'', ''roi_agent'', ''budget_agent'', ''kpi_agent'',
            ''market_agent'', ''compiler_agent'']"
proof -
  let ?rows = "[(''exploration_agent'', True), (''sql_agent'', True), (''roi_agent'', False),
              (''budget_agent'', True), (''kpi_agent'', True), (''market_agent'', True)]"
  obtain r s1 where b: "build_all sv ?rows s0 = (r, s1)" by (cases "build_all sv ?rows s0")
  with assms(1) have r: "r = None" by (cases r) (simp_all add: SupervisorAgent_init_def)
  from assms(1) b r have s: "s = (emit (Constructed ''compiler_agent'') (s1\<lparr>allocated := Suc (allocated s1)\<rparr>))
      \<lparr>agents := (agents s1)(''compiler_agent'' \<mapsto>
          \<lparr>agent_role = ''compiler_agent'', agent_oid = allocated s1, agent_executor = True\<rparr>)\<rparr>"
    by (simp add: SupervisorAgent_init_def new_agent_def)
  from build_all_ok [OF b [unfolded r] assms(2)]
  have ok1: "roles_ok s1" and tr1: "trace s1 = trace s0 @ map (\<lambda>row. Constructed (fst row)) ?rows"
    by simp_all
  from ok1 show "roles_ok s" unfolding s by (simp add: roles_ok_def)
  from tr1 show "trace s = trace s0 @ map Constructed
           [''exploration_agent'', ''sql_agent'', ''roi_agent'', ''budget_agent'', ''kpi_agent'',
            ''market_agent'', ''compiler_agent'']"
    unfolding s by simp
qed

lemma node_table_roles:
  "(node, role, key) \<in> set node_table \<Longrightarrow>
     role \<in> {''exploration_agent'', ''sql_agent'', ''roi_agent'', ''budget_agent'', ''kpi_agent'',
              ''market_agent''}"
  by (auto simp: node_table_def)

lemma node_table_keys:
  "(node, role, key) \<in> set node_table \<Longrightarrow> key \<noteq> ''final_answer''"
  by (auto simp: node_table_def)



section \<open>The parallel scheduler and the roles a section does not need\<close>

lemma run_node_skips:
  assumes "(node, role, key) \<in> set node_table"
      and "role \<notin> set (mapping_get (current_section st))" and "roles_ok s"
  shows "run_node sv node st s = (st, s)"
proof -
  obtain st1 s1 where r: "run_node sv node st s = (st1, s1)" by (cases "run_node sv node st s")
  from run_node_effect [OF assms(3) r] node_table_lookup [OF assms(1)] assms(2) r
  show ?thesis by simp
qed

lemma run_node_slots:
  assumes ok: "roles_ok s" and row: "(node, role, key) \<in> set node_table"
      and other: "\<not> (role \<in> set (mapping_get (current_section st)) \<and> node = n)"
  shows "as_dict (fst (run_node sv n st s)) key = as_dict st key"
proof -
  obtain st1 s1 where r: "run_node sv n st s = (st1, s1)" by (cases "run_node sv n st s")
  note e = run_node_effect [OF ok r]
  have "as_dict st1 key = as_dict st key"
  proof (cases "map_of node_table n")
    case None
    with e show ?thesis by simp
  next
    case (Some p)
    obtain rn kn where p: "p = (rn, kn)" by (cases p)
    from Some p have rown: "(n, rn, kn) \<in> set node_table" by (simp add: node_table_lookup_rev)
    show ?thesis
    proof (cases "rn \<in> set (mapping_get (current_section st))")
      case True
      with e Some p have d: "\<forall>k. k \<noteq> kn \<longrightarrow> as_dict st1 k = as_dict st k" by simp
      have "node \<noteq> n"
      proof
        assume "node = n"
        with node_table_rows(2) [OF row rown] have "role = rn" by simp
        with True other \<open>node = n\<close> show False by simp
      qed
      then have "key \<noteq> kn" using node_table_rows(1) [OF row rown] by simp
      with d show ?thesis by simp
    next
      case False
      with e Some p show ?thesis by simp
    qed
  qed
  with r show ?thesis by simp
qed

lemma SupervisorAgent_init_holds:
  assumes "SupervisorAgent_init sv s0 = (None, s)" and "roles_ok s0"
      and "(node, role, key) \<in> set node_table"
  shows "agents s role \<noteq> None"
proof -
  let ?rows = "[(''exploration_agent'', True), (''sql_agent'', True), (''roi_agent'', False),
              (''budget_agent'', True), (''kpi_agent'', True), (''market_agent'', True)]"
  obtain r s1 where b: "build_all sv ?rows s0 = (r, s1)" by (cases "build_all sv ?rows s0")
  with assms(1) have r: "r = None" by (cases r) (simp_all add: SupervisorAgent_init_def)
  from assms(1) b r have s: "agents s = (agents s1)(''compiler_agent'' \<mapsto>
          \<lparr>agent_role = ''compiler_agent'', agent_oid = allocated s1, agent_executor = True\<rparr>)"
    by (auto simp: SupervisorAgent_init_def new_agent_def)
  from build_all_ok [OF b [unfolded r] assms(2)]
  have "\<forall>name. agents s0 name \<noteq> None \<or> name \<in> fst ` set ?rows \<longrightarrow> agents s1 name \<noteq> None"
    by simp
  moreover have "role \<in> fst ` set ?rows" using node_table_roles [OF assms(3)] by auto
  ultimately have "agents s1 role \<noteq> None" by blast
  then show ?thesis unfolding s by simp
qed

text \<open>
  C1, as the code has it. The supervisor's constructor builds every worker - one
  construction for each role - before any section is run. For a section, take a worker
  role that the section does not list. Its own node does the membership check and
  returns: the graph state and the machine (log, workers, outside world) are exactly as
  before. And no node of the graph, run on a state of that section, calls that role's
  engine, stores anything under its key, changes its entry or constructs a worker; nor
  does the compiler node call or construct one. What a run cannot save is the
  construction, which the constructor has done already.
\<close>

theorem unrequired_worker_is_skipped:
  assumes "(node, role, key) \<in> set node_table"
      and "role \<notin> set (mapping_get (current_section st))"
      and "roles_ok s"
  shows "run_node sv node st s = (st, s)
       \<and> (\<forall>n. calls_of role (trace (snd (run_node sv n st s))) = calls_of role (trace s)
              \<and> writes_of key (trace (snd (run_node sv n st s))) = writes_of key (trace s)
              \<and> as_dict (fst (run_node sv n st s)) key = as_dict st key
              \<and> (\<forall>r. constructions_of r (trace (snd (run_node sv n st s)))
                       = constructions_of r (trace s)))
       \<and> calls_of role (trace (snd (compile_results sv st s))) = calls_of role (trace s)
       \<and> (\<forall>r. constructions_of r (trace (snd (compile_results sv st s)))
                = constructions_of r (trace s))
       \<and> (roles_ok s0 \<and> SupervisorAgent_init sv s0 = (None, s1) \<longrightarrow>
            agents s1 role \<noteq> None
          \<and> constructions_of role (trace s1) = Suc (constructions_of role (trace s0)))"
proof (intro conjI allI impI)
  show "run_node sv node st s = (st, s)"
    by (rule run_node_skips [OF assms])
next
  fix n
  have r: "run_node sv n st s = (fst (run_node sv n st s), snd (run_node sv n st s))" by simp
  note row = run_node_row [OF assms(3) r assms(1)]
  show "calls_of role (trace (snd (run_node sv n st s))) = calls_of role (trace s)"
    using row(2) [OF assms(2)] by simp
  show "writes_of key (trace (snd (run_node sv n st s))) = writes_of key (trace s)"
    using row(1) assms(2) by simp
  show "as_dict (fst (run_node sv n st s)) key = as_dict st key"
    using run_node_slots [OF assms(3,1), of st n sv] assms(2) by simp
  show "constructions_of r (trace (snd (run_node sv n st s))) = constructions_of r (trace s)" for r
    by (rule row(3))
next
  have c: "compile_results sv st s
      = (fst (compile_results sv st s), snd (compile_results sv st s))" by simp
  show "calls_of role (trace (snd (compile_results sv st s))) = calls_of role (trace s)"
    by (rule compile_results_effect(1) [OF c])
  show "constructions_of r (trace (snd (compile_results sv st s))) = constructions_of r (trace s)"
    for r
    by (rule compile_results_effect(2) [OF c])
next
  assume a: "roles_ok s0 \<and> SupervisorAgent_init sv s0 = (None, s1)"
  then have ok: "roles_ok s0" and i: "SupervisorAgent_init sv s0 = (None, s1)" by simp_all
  show "agents s1 role \<noteq> None"
    by (rule SupervisorAgent_init_holds [OF i ok assms(1)])
  show "constructions_of role (trace s1) = Suc (constructions_of role (trace s0))"
    using node_table_roles [OF assms(1)] SupervisorAgent_init_ok(2) [OF i ok]
    by (auto simp: constructions_of_def)
qed

lemma supervisor_built:
  "SupervisorAgent_init (flaky 0 []) (start 0) = (None, supervisor)"
  "trace supervisor = map Constructed
           [''exploration_agent'', ''sql_agent'', ''roi_agent'', ''budget_agent'', ''kpi_agent'',
            ''market_agent'', ''compiler_agent'']"
  "roles_ok supervisor"
proof -
  have f: "fst (SupervisorAgent_init (flaky 0 []) (start 0)) = None"
    by (simp add: SupervisorAgent_init_def store_agent_def call_factory_def new_agent_def
          flaky_def start_def)
  then show i: "SupervisorAgent_init (flaky 0 []) (start 0) = (None, supervisor)"
    by (simp add: supervisor_def prod_eq_iff)
  have ok: "roles_ok (start (0::nat))" by (simp add: roles_ok_def start_def)
  from SupervisorAgent_init_ok [OF i ok]
  show "trace supervisor = map Constructed
           [''exploration_agent'', ''sql_agent'', ''roi_agent'', ''budget_agent'', ''kpi_agent'',
            ''market_agent'', ''compiler_agent'']"
    and "roles_ok supervisor"
    by (simp_all add: start_def)
qed

theorem unrequired_worker_is_skipped_witness:
  "(''roi'', ''roi_agent'', ''roi_results'') \<in> set node_table
   \<and> ''roi_agent'' \<notin> set (mapping_get (current_section (initial_state ''q'' ''executive_summary'')))
   \<and> roles_ok supervisor
   \<and> roles_ok (start (0::nat))
   \<and> SupervisorAgent_init (flaky 0 []) (start 0) = (None, supervisor)
   \<and> run_node (flaky 0 []) ''roi'' (initial_state ''q'' ''executive_summary'') supervisor
       = (initial_state ''q'' ''executive_summary'', supervisor)
   \<and> calls_of ''roi_agent'' (trace (snd (run_node (flaky 0 []) ''exploration''
         (initial_state ''q'' ''executive_summary'') supervisor))) = 0
   \<and> agents supervisor ''roi_agent'' \<noteq> None
   \<and> constructions_of ''roi_agent'' (trace supervisor) = 1"
proof -
  have h1: "(''roi'', ''roi_agent'', ''roi_results'') \<in> set node_table"
    by (simp add: node_table_def)
  have h2: "''roi_agent'' \<notin> set (mapping_get (current_section (initial_state ''q'' ''executive_summary'')))"
    by (simp add: initial_state_def mapping_get_def section_agent_mapping_def)
  note h3 = supervisor_built(3)
  have h4: "roles_ok (start (0::nat))" by (simp add: roles_ok_def start_def)
  note h5 = supervisor_built(1)
  have c: "calls_of ''roi_agent'' (trace supervisor) = 0"
    "constructions_of ''roi_agent'' (trace (start (0::nat))) = 0"
    by (simp_all add: supervisor_built(2) calls_of_def constructions_of_def start_def)
  from unrequired_worker_is_skipped [OF h1 h2 h3, of "flaky 0 []" "start 0" supervisor]
    h1 h2 h3 h4 h5 c
  show ?thesis by simp
qed

text \<open>
  C1 as stated has the worker of a role outside the section's list not constructed.
  Every section is run on a supervisor whose constructor has returned, and that
  constructor has constructed the ROI worker, which the section \<^verbatim>\<open>executive_summary\<close>
  (it lists the exploration worker only) does not need.
\<close>

theorem unrequired_worker_constructed_counterexample:
  "''roi_agent'' \<notin> set (mapping_get ''executive_summary'')
   \<and> fst (SupervisorAgent_init (flaky 0 []) (start 0)) = None
   \<and> constructions_of ''roi_agent'' (trace (start (0::nat))) = 0
   \<and> constructions_of ''roi_agent'' (trace (snd (SupervisorAgent_init (flaky 0 []) (start 0)))) = 1
   \<and> agents (snd (SupervisorAgent_init (flaky 0 []) (start 0))) ''roi_agent''
       = Some \<lparr>agent_role = ''roi_agent'', agent_oid = 2, agent_executor = False\<rparr>"
proof -
  have m: "mapping_get ''executive_summary'' = [''exploration_agent'']"
    by (simp add: mapping_get_def section_agent_mapping_def)
  have i: "SupervisorAgent_init (flaky 0 []) (start 0)
      = (None, \<lparr>world = 0,
          trace = map Constructed [''exploration_agent'', ''sql_agent'', ''roi_agent'',
            ''budget_agent'', ''kpi_agent'', ''market_agent'', ''compiler_agent''],
          agents = [''exploration_agent'' \<mapsto> \<lparr>agent_role = ''exploration_agent'', agent_oid = 0, agent_executor = True\<rparr>,
                    ''sql_agent'' \<mapsto> \<lparr>agent_role = ''sql_agent'', agent_oid = 1, agent_executor = True\<rparr>,
                    ''roi_agent'' \<mapsto> \<lparr>agent_role = ''roi_agent'', agent_oid = 2, agent_executor = False\<rparr>,
                    ''budget_agent'' \<mapsto> \<lparr>agent_role = ''budget_agent'', agent_oid = 3, agent_executor = True\<rparr>,
                    ''kpi_agent'' \<mapsto> \<lparr>agent_role = ''kpi_agent'', agent_oid = 4, agent_executor = True\<rparr>,
                    ''market_agent'' \<mapsto> \<lparr>agent_role = ''market_agent'', agent_oid = 5, agent_executor = True\<rparr>,
                    ''compiler_agent'' \<mapsto> \<lparr>agent_role = ''compiler_agent'', agent_oid = 6, agent_executor = True\<rparr>],
          allocated = 7\<rparr>)"
    by (simp add: SupervisorAgent_init_def store_agent_def call_factory_def new_agent_def
          flaky_def start_def emit_def eval_nat_numeral)
  show ?thesis
    unfolding i by (simp add: m constructions_of_def start_def)
qed

section \<open>The aggregated state under both schedulers\<close>



lemma Stored_not_call_event [simp]: "Stored k \<notin> call_events name"
  by (auto simp: call_events_def)



lemma writes_of_emit:
  "writes_of k (trace (emit e s)) = writes_of k (trace s) + (if e = Stored k then 1 else 0)"
  by (simp add: writes_of_def)













end
